theory Spec2Isabelle
  imports Complex_Main
begin

section \<open>Merging profiles for comparison\<close>

text \<open>
  A model of the profile merge of the profiler: \<open>mergeProfiles\<close> and its helpers
  \<open>mergeCategories\<close>, \<open>adjustCategories\<close> and \<open>adjustNullableCategories\<close>.
  Arrays are lists, a JavaScript \<open>Map\<close> is a partial function, a thrown \<open>Error\<close> is the
  left summand of a sum type, and a field that may hold \<open>null\<close> or \<open>undefined\<close> is an
  \<open>option\<close>.
\<close>

subsection \<open>Categories\<close>

text \<open>
  Modelled from the spec: the type declaration of \<open>Category\<close> is not part of the sources at
  hand. A category has a \<open>name\<close>, its identity for the merge, and display attributes that
  the merge never reads; \<open>color\<close> stands for them.
\<close>

record Category =
  name :: string
  color :: string

type_synonym CategoryList = "Category list"

type_synonym IndexIntoCategoryList = nat

type_synonym TranslationMapForCategories = "IndexIntoCategoryList \<rightharpoonup> IndexIntoCategoryList"

record MergedCategories =
  categories :: CategoryList
  translationMaps :: "TranslationMapForCategories list"

text \<open>
  The inner \<open>categories.forEach((category, i) => ...)\<close> of \<open>mergeCategories\<close>. The state is
  \<open>newCategories\<close>, \<open>insertedCategories\<close> (both shared by all the inputs) and the
  \<open>translationMap\<close> of the current input; \<open>i\<close> is the index that \<open>forEach\<close> passes.
\<close>

fun mergeCategoryList ::
  "nat \<Rightarrow> CategoryList \<Rightarrow> CategoryList \<times> (string \<rightharpoonup> nat) \<times> TranslationMapForCategories
     \<Rightarrow> CategoryList \<times> (string \<rightharpoonup> nat) \<times> TranslationMapForCategories" where
  "mergeCategoryList i [] (newCategories, insertedCategories, translationMap) =
     (newCategories, insertedCategories, translationMap)"
| "mergeCategoryList i (category # rest) (newCategories, insertedCategories, translationMap) =
     (case insertedCategories (Category.name category) of
        Some insertedCategoryIndex \<Rightarrow>
          mergeCategoryList (Suc i) rest
            (newCategories, insertedCategories, translationMap(i \<mapsto> insertedCategoryIndex))
      | None \<Rightarrow>
          mergeCategoryList (Suc i) rest
            (newCategories @ [category],
             insertedCategories(Category.name category \<mapsto> length newCategories),
             translationMap(i \<mapsto> length newCategories)))"

text \<open>The outer \<open>categoriesPerThread.forEach(categories => ...)\<close>.\<close>

fun mergeCategoryLists ::
  "CategoryList list \<Rightarrow> CategoryList \<times> (string \<rightharpoonup> nat) \<times> TranslationMapForCategories list
     \<Rightarrow> CategoryList \<times> (string \<rightharpoonup> nat) \<times> TranslationMapForCategories list" where
  "mergeCategoryLists [] (newCategories, insertedCategories, maps) =
     (newCategories, insertedCategories, maps)"
| "mergeCategoryLists (categoryList # rest) (newCategories, insertedCategories, maps) =
     (case mergeCategoryList 0 categoryList (newCategories, insertedCategories, Map.empty) of
        (newCategories', insertedCategories', translationMap) \<Rightarrow>
          mergeCategoryLists rest (newCategories', insertedCategories', maps @ [translationMap]))"

definition mergeCategories :: "CategoryList list \<Rightarrow> MergedCategories" where
  "mergeCategories categoriesPerThread =
     (case mergeCategoryLists categoriesPerThread ([], Map.empty, []) of
        (newCategories, insertedCategories, maps) \<Rightarrow>
          \<lparr>categories = newCategories, translationMaps = maps\<rparr>)"

subsection \<open>Remapping category indices\<close>

datatype error =
  NoThreadSelected nat
  | CategoryNotFound IndexIntoCategoryList
  | TypeError

text \<open>
  \<open>categories.map(category => ...)\<close> visits the elements in order, so the first index that
  the translation map lacks is the one whose error is thrown.
\<close>

fun adjustCategories ::
  "IndexIntoCategoryList list \<Rightarrow> TranslationMapForCategories \<Rightarrow> error + IndexIntoCategoryList list" where
  "adjustCategories [] translationMap = Inr []"
| "adjustCategories (category # rest) translationMap =
     (case translationMap category of
        None \<Rightarrow> Inl (CategoryNotFound category)
      | Some result \<Rightarrow>
          (case adjustCategories rest translationMap of
             Inl e \<Rightarrow> Inl e
           | Inr results \<Rightarrow> Inr (result # results)))"

fun adjustNullableCategories ::
  "IndexIntoCategoryList option list \<Rightarrow> TranslationMapForCategories
     \<Rightarrow> error + IndexIntoCategoryList option list" where
  "adjustNullableCategories [] translationMap = Inr []"
| "adjustNullableCategories (None # rest) translationMap =
     (case adjustNullableCategories rest translationMap of
        Inl e \<Rightarrow> Inl e
      | Inr results \<Rightarrow> Inr (None # results))"
| "adjustNullableCategories (Some category # rest) translationMap =
     (case translationMap category of
        None \<Rightarrow> Inl (CategoryNotFound category)
      | Some result \<Rightarrow>
          (case adjustNullableCategories rest translationMap of
             Inl e \<Rightarrow> Inl e
           | Inr results \<Rightarrow> Inr (Some result # results)))"

subsection \<open>Numbers\<close>

text \<open>
  A JavaScript number, without rounding: a finite value, one of the two infinities, or
  \<open>NaN\<close>. \<open>jsneg\<close> is unary minus, \<open>jsadd\<close> is \<open>+\<close> on two numbers, \<open>Math_min\<close> is
  \<open>Math.min(...xs)\<close>, which starts from \<open>Infinity\<close> and is \<open>NaN\<close> as soon as one argument is.
\<close>

datatype jsnum = Num real | PosInfinity | NegInfinity | NaN

fun jsneg :: "jsnum \<Rightarrow> jsnum" where
  "jsneg (Num x) = Num (- x)"
| "jsneg PosInfinity = NegInfinity"
| "jsneg NegInfinity = PosInfinity"
| "jsneg NaN = NaN"

fun jsadd :: "jsnum \<Rightarrow> jsnum \<Rightarrow> jsnum" where
  "jsadd (Num x) (Num y) = Num (x + y)"
| "jsadd NaN b = NaN"
| "jsadd a NaN = NaN"
| "jsadd PosInfinity NegInfinity = NaN"
| "jsadd NegInfinity PosInfinity = NaN"
| "jsadd PosInfinity b = PosInfinity"
| "jsadd NegInfinity b = NegInfinity"
| "jsadd a PosInfinity = PosInfinity"
| "jsadd a NegInfinity = NegInfinity"

fun jsmin :: "jsnum \<Rightarrow> jsnum \<Rightarrow> jsnum" where
  "jsmin (Num x) (Num y) = Num (min x y)"
| "jsmin NaN b = NaN"
| "jsmin a NaN = NaN"
| "jsmin NegInfinity b = NegInfinity"
| "jsmin a NegInfinity = NegInfinity"
| "jsmin PosInfinity b = b"
| "jsmin a PosInfinity = a"

definition Math_min :: "jsnum list \<Rightarrow> jsnum" where
  "Math_min xs = foldl jsmin PosInfinity xs"

text \<open>
  The text of a template literal \<open>${n}\<close> for a natural number \<open>n\<close>: its decimal digits.
\<close>

definition digit :: "nat \<Rightarrow> char" where
  "digit d = ''0123456789'' ! d"

fun numberToString :: "nat \<Rightarrow> string" where
  "numberToString n =
     (if n < 10 then [digit n] else numberToString (n div 10) @ [digit (n mod 10)])"

declare numberToString.simps [simp del]

subsection \<open>Profiles, threads and URL states\<close>

text \<open>
  Modelled from the spec: the type declarations of \<open>Profile\<close>, \<open>Thread\<close> and \<open>UrlState\<close> are
  not part of the sources at hand. The records hold the fields that \<open>mergeProfiles\<close> reads or
  writes; the other columns of the tables are carried along untouched and are left out.
  The transform stacks and the implementation filter are opaque to the merge and are type
  parameters. \<open>end'\<close> is the field \<open>end\<close> of a range.
\<close>

record StackTable =
  category :: "IndexIntoCategoryList list"

record FrameTable =
  category :: "IndexIntoCategoryList option list"

record SamplesTable =
  time :: "jsnum list"

record MarkersTable =
  time :: "jsnum list"

record Thread =
  pid :: string
  processName :: "string option"
  name :: string
  registerTime :: jsnum
  unregisterTime :: "jsnum option"
  processStartupTime :: jsnum
  processShutdownTime :: "jsnum option"
  stackTable :: StackTable
  frameTable :: FrameTable
  samples :: SamplesTable
  markers :: MarkersTable

record ProfileMeta =
  interval :: jsnum
  categories :: CategoryList

record Profile =
  meta :: ProfileMeta
  threads :: "Thread list"

record StartEndRange =
  start :: jsnum
  end' :: jsnum

record ('t, 'f) ProfileSpecificUrlState =
  selectedThread :: "nat option"
  transforms :: "nat \<rightharpoonup> 't"
  implementation :: 'f
  committedRanges :: "StartEndRange list option"

record ('t, 'f) UrlState =
  profileSpecific :: "('t, 'f) ProfileSpecificUrlState"

record ('t, 'f) MergedProfiles =
  profile :: Profile
  transformStacks :: "nat \<rightharpoonup> 't"
  implementationFilters :: "'f list"

subsection \<open>The imported helpers\<close>

text \<open>
  \<open>filterThreadSamplesToRange\<close>, \<open>getTimeRangeForThread\<close> and
  \<open>getTimeRangeIncludingAllThreads\<close> are imported from \<open>./profile-data\<close>, which is not part
  of the sources at hand. The merge takes them as they are, so the model takes them as a
  parameter: a record of the three functions.
\<close>

record ProfileData =
  filterThreadSamplesToRange :: "Thread \<Rightarrow> jsnum \<Rightarrow> jsnum \<Rightarrow> Thread"
  getTimeRangeForThread :: "Thread \<Rightarrow> jsnum \<Rightarrow> StartEndRange"
  getTimeRangeIncludingAllThreads :: "Profile \<Rightarrow> StartEndRange"

text \<open>
  Modelled from the spec: \<open>adjustSampleTimestamps\<close> and \<open>adjustMarkerTimestamps\<close> are
  imported from \<open>./process-profile\<close>, which is not part of the sources at hand. The spec has
  the offset added to every sample time and to every marker time.
\<close>

definition adjustSampleTimestamps :: "SamplesTable \<Rightarrow> jsnum \<Rightarrow> SamplesTable" where
  "adjustSampleTimestamps table delta =
     table\<lparr>SamplesTable.time := map (\<lambda>t. jsadd t delta) (SamplesTable.time table)\<rparr>"

definition adjustMarkerTimestamps :: "MarkersTable \<Rightarrow> jsnum \<Rightarrow> MarkersTable" where
  "adjustMarkerTimestamps table delta =
     table\<lparr>MarkersTable.time := map (\<lambda>t. jsadd t delta) (MarkersTable.time table)\<rparr>"

text \<open>
  Modelled from the spec: \<open>getEmptyProfile\<close> is imported from \<open>./data-structures\<close>, which is
  not part of the sources at hand. The spec has it return a defaulted container with an
  empty thread list; \<open>mergeProfiles\<close> overwrites both fields of its \<open>meta\<close>.
\<close>

definition getEmptyProfile :: Profile where
  "getEmptyProfile = \<lparr>meta = \<lparr>interval = Num 1, categories = []\<rparr>, threads = []\<rparr>"

subsection \<open>The body of the loop of \<open>mergeProfiles\<close>\<close>

text \<open>
  The loop body is cut at its comments into five steps, each a function from the thread to
  the thread that the next step sees.
\<close>

text \<open>
  ``We adjust the categories using the maps computed above.'' The stack table's column is
  remapped first, so its error is the one thrown when both columns have a bad index.
\<close>

definition adjustThreadCategories :: "Thread \<Rightarrow> TranslationMapForCategories \<Rightarrow> error + Thread" where
  "adjustThreadCategories thread translationMap =
     (case adjustCategories (StackTable.category (stackTable thread)) translationMap of
        Inl e \<Rightarrow> Inl e
      | Inr stackCategories \<Rightarrow>
          (case adjustNullableCategories (FrameTable.category (frameTable thread)) translationMap of
             Inl e \<Rightarrow> Inl e
           | Inr frameCategories \<Rightarrow>
               Inr (thread
                 \<lparr>stackTable := (stackTable thread)\<lparr>StackTable.category := stackCategories\<rparr>,
                  frameTable := (frameTable thread)\<lparr>FrameTable.category := frameCategories\<rparr>\<rparr>)))"

text \<open>
  \<open>profileSpecific.committedRanges && profileSpecific.committedRanges.pop()\<close>: a missing
  array and an empty array both give no range; otherwise \<open>pop\<close> removes the last element of
  the caller's array and returns it. The state is returned as the call leaves it.
\<close>

definition popCommittedRange ::
  "('t, 'f) UrlState \<Rightarrow> StartEndRange option \<times> ('t, 'f) UrlState" where
  "popCommittedRange state =
     (case committedRanges (profileSpecific state) of
        None \<Rightarrow> (None, state)
      | Some ranges \<Rightarrow>
          if ranges = [] then (None, state)
          else (Some (last ranges),
                state\<lparr>profileSpecific :=
                  (profileSpecific state)\<lparr>committedRanges := Some (butlast ranges)\<rparr>\<rparr>))"

text \<open>
  ``We filter the profile using the range from the state for this profile.'' \<open>prof\<close> is the
  input profile as it is at this point of the loop.
\<close>

definition filterToCommittedRange ::
  "ProfileData \<Rightarrow> Profile \<Rightarrow> Thread \<Rightarrow> StartEndRange option \<Rightarrow> Thread" where
  "filterToCommittedRange U prof thread committedRange =
     (let zeroAt = start (getTimeRangeIncludingAllThreads U prof) in
      case committedRange of
        Some committed \<Rightarrow>
          filterThreadSamplesToRange U thread
            (jsadd (start committed) zeroAt) (jsadd (end' committed) zeroAt)
      | None \<Rightarrow> thread)"

text \<open>
  ``We're reseting the thread's PID to make sure we don't have any collision.''
  \<open>thread.processName || thread.name\<close> is the name of the thread when the process name is
  missing and also when it is the empty string.
\<close>

definition resetIdentity :: "nat \<Rightarrow> Thread \<Rightarrow> Thread" where
  "resetIdentity i thread =
     thread
       \<lparr>pid := pid thread @ '' from profile '' @ numberToString (i + 1),
        processName := Some (''Profile '' @ numberToString (i + 1) @ '': '' @
          (case processName thread of
             None \<Rightarrow> Thread.name thread
           | Some processName' \<Rightarrow>
               if processName' = [] then Thread.name thread else processName'))\<rparr>"

text \<open>
  ``We adjust the various times so that the 2 profiles are aligned at the start and the
  data is consistent.'' \<open>thread.samples.time[0]\<close> is \<open>undefined\<close> when the thread has no
  sample, and \<open>-undefined\<close> is \<open>NaN\<close>.
\<close>

definition startTimeAdjustment :: "Thread \<Rightarrow> jsnum" where
  "startTimeAdjustment thread =
     jsneg (case SamplesTable.time (samples thread) of [] \<Rightarrow> NaN | t # ts \<Rightarrow> t)"

definition adjustThreadTimes :: "Thread \<Rightarrow> Thread" where
  "adjustThreadTimes thread =
     (let delta = startTimeAdjustment thread in
      thread
        \<lparr>samples := adjustSampleTimestamps (samples thread) delta,
         markers := adjustMarkerTimestamps (markers thread) delta,
         registerTime := jsadd (registerTime thread) delta,
         processStartupTime := jsadd (processStartupTime thread) delta,
         processShutdownTime :=
           (case processShutdownTime thread of
              None \<Rightarrow> None
            | Some t \<Rightarrow> Some (jsadd t delta)),
         unregisterTime :=
           (case unregisterTime thread of
              None \<Rightarrow> None
            | Some t \<Rightarrow> Some (jsadd t delta))\<rparr>)"

text \<open>
  ``By setting \<open>unregisterTime\<close> here, the empty thread indicators will be drawn.''
\<close>

definition setUnregisterTime :: "ProfileData \<Rightarrow> jsnum \<Rightarrow> Thread \<Rightarrow> Thread" where
  "setUnregisterTime U profileInterval thread =
     (if processShutdownTime thread = None \<and> unregisterTime thread = None
      then thread\<lparr>unregisterTime := Some (end' (getTimeRangeForThread U thread profileInterval))\<rparr>
      else thread)"

text \<open>
  The first half of one turn of the loop, for the state at index \<open>i\<close>: from the null
  check to the range filter. It throws, or returns the thread as the second half receives
  it, the transform stack stored under \<open>i\<close> (\<open>undefined\<close> when the state has none for the
  thread), the implementation filter to push, and the state as the turn leaves it.
  \<open>profiles[i]\<close> and \<open>profile.threads[selectedThreadIndex]\<close> are \<open>undefined\<close> out of range, and
  reading a property of \<open>undefined\<close> is the \<open>TypeError\<close> of the language. The categories of
  the thread are rewritten in place, so \<open>getTimeRangeIncludingAllThreads\<close> sees the profile
  with the rewritten thread.
\<close>

definition selectThread ::
  "ProfileData \<Rightarrow> Profile list \<Rightarrow> TranslationMapForCategories list \<Rightarrow> nat \<Rightarrow> ('t, 'f) UrlState
     \<Rightarrow> error + (Thread \<times> 't option \<times> 'f \<times> ('t, 'f) UrlState)" where
  "selectThread U profiles translationMapsForCategories i state =
     (case selectedThread (profileSpecific state) of
        None \<Rightarrow> Inl (NoThreadSelected i)
      | Some selectedThreadIndex \<Rightarrow>
          if \<not> i < length profiles then Inl TypeError
          else if \<not> selectedThreadIndex < length (threads (profiles ! i)) then Inl TypeError
          else
            (case adjustThreadCategories (threads (profiles ! i) ! selectedThreadIndex)
                    (translationMapsForCategories ! i) of
               Inl e \<Rightarrow> Inl e
             | Inr thread \<Rightarrow>
                 (case popCommittedRange state of
                    (committedRange, state') \<Rightarrow>
                      Inr (filterToCommittedRange U
                             ((profiles ! i)
                                \<lparr>threads := (threads (profiles ! i))[selectedThreadIndex := thread]\<rparr>)
                             thread committedRange,
                           transforms (profileSpecific state) selectedThreadIndex,
                           implementation (profileSpecific state),
                           state'))))"

text \<open>
  One whole turn of the loop: the second half renames the thread, shifts its times and
  sets its \<open>unregisterTime\<close>, with the \<open>meta.interval\<close> of the input profile.
\<close>

definition mergeThread ::
  "ProfileData \<Rightarrow> Profile list \<Rightarrow> TranslationMapForCategories list \<Rightarrow> nat \<Rightarrow> ('t, 'f) UrlState
     \<Rightarrow> error + (Thread \<times> 't option \<times> 'f \<times> ('t, 'f) UrlState)" where
  "mergeThread U profiles translationMapsForCategories i state =
     (case selectThread U profiles translationMapsForCategories i state of
        Inl e \<Rightarrow> Inl e
      | Inr (thread, transformStack, implementationFilter, state') \<Rightarrow>
          Inr (setUnregisterTime U (interval (meta (profiles ! i)))
                 (adjustThreadTimes (resetIdentity i thread)),
               transformStack, implementationFilter, state'))"

subsection \<open>\<open>mergeProfiles\<close>\<close>

text \<open>
  The \<open>for\<close> loop over the indices of \<open>profileStates\<close>. The accumulator is the result profile,
  \<open>transformStacks\<close>, \<open>implementationFilters\<close> and the states already visited, as the loop
  leaves them. An error ends the loop and nothing is returned.
\<close>

fun mergeLoop ::
  "ProfileData \<Rightarrow> Profile list \<Rightarrow> TranslationMapForCategories list \<Rightarrow> nat \<Rightarrow> ('t, 'f) UrlState list
     \<Rightarrow> Profile \<times> (nat \<rightharpoonup> 't) \<times> 'f list \<times> ('t, 'f) UrlState list
     \<Rightarrow> error + (Profile \<times> (nat \<rightharpoonup> 't) \<times> 'f list \<times> ('t, 'f) UrlState list)" where
  "mergeLoop U profiles maps i [] acc = Inr acc"
| "mergeLoop U profiles maps i (state # rest) (resultProfile, stacks, filters, visited) =
     (case mergeThread U profiles maps i state of
        Inl e \<Rightarrow> Inl e
      | Inr (thread, transformStack, implementationFilter, state') \<Rightarrow>
          mergeLoop U profiles maps (Suc i) rest
            (resultProfile\<lparr>threads := threads resultProfile @ [thread]\<rparr>,
             stacks(i := transformStack),
             filters @ [implementationFilter],
             visited @ [state']))"

text \<open>
  \<open>mergeProfiles\<close> returns the merged profile with the two lists for the caller, or throws.
  The second component of the result is \<open>profileStates\<close> after the call: the caller's array,
  whose committed ranges the loop pops. The input profiles are taken to be separate objects,
  so what the loop writes into the thread of one input is not seen through another.
\<close>

definition mergeProfiles ::
  "ProfileData \<Rightarrow> Profile list \<Rightarrow> ('t, 'f) UrlState list
     \<Rightarrow> error + (('t, 'f) MergedProfiles \<times> ('t, 'f) UrlState list)" where
  "mergeProfiles U profiles profileStates =
     (let merged = mergeCategories (map (\<lambda>p. ProfileMeta.categories (meta p)) profiles);
          resultProfile = getEmptyProfile
            \<lparr>meta := (meta getEmptyProfile)
               \<lparr>interval := Math_min (map (\<lambda>p. interval (meta p)) profiles),
                categories := MergedCategories.categories merged\<rparr>\<rparr>
      in case mergeLoop U profiles (translationMaps merged) 0 profileStates
                (resultProfile, Map.empty, [], []) of
           Inl e \<Rightarrow> Inl e
         | Inr (resultProfile', stacks, filters, visited) \<Rightarrow>
             Inr (\<lparr>profile = resultProfile', transformStacks = stacks,
                   implementationFilters = filters\<rparr>,
                  visited))"

text \<open>
  The translation maps that \<open>mergeProfiles\<close> computes from its profiles before the loop: its
  local \<open>translationMapsForCategories\<close>, as a function of the profiles.
\<close>

definition mergedMaps :: "Profile list \<Rightarrow> TranslationMapForCategories list" where
  "mergedMaps profiles =
     translationMaps (mergeCategories (map (\<lambda>p. ProfileMeta.categories (meta p)) profiles))"

subsection \<open>What the merge of categories is to compute\<close>

text \<open>
  The spec's words for \<open>mergeCategories\<close>, as functions of their own. \<open>firstOccurrences\<close>
  scans a list of categories and keeps a category when no category of the same name has
  been seen, in the scan order. \<open>indexOfName\<close> is the position of the first category of a
  given name.
\<close>

fun firstOccurrences :: "string set \<Rightarrow> CategoryList \<Rightarrow> CategoryList" where
  "firstOccurrences seen [] = []"
| "firstOccurrences seen (c # rest) =
     (if Category.name c \<in> seen then firstOccurrences seen rest
      else c # firstOccurrences (insert (Category.name c) seen) rest)"

fun indexOfName :: "string \<Rightarrow> CategoryList \<Rightarrow> nat option" where
  "indexOfName n [] = None"
| "indexOfName n (c # rest) =
     (if Category.name c = n then Some 0 else map_option Suc (indexOfName n rest))"

subsection \<open>An instance of the imported helpers\<close>

text \<open>
  Modelled from the spec: an instance of the three helpers of \<open>./profile-data\<close>, for the
  examples. \<open>filterThreadSamplesToRange\<close> keeps the samples and the markers of the
  closed-open interval and every other field; \<open>getTimeRangeForThread\<close> is from the first
  sample to the last sample plus the interval; \<open>getTimeRangeIncludingAllThreads\<close> spans the
  ranges of all the threads of the profile. \<open>jsless\<close> is \<open><\<close> and \<open>jsmax\<close> is the maximum of
  two numbers.
\<close>

fun jsless :: "jsnum \<Rightarrow> jsnum \<Rightarrow> bool" where
  "jsless (Num x) (Num y) = (x < y)"
| "jsless NaN b = False"
| "jsless a NaN = False"
| "jsless a NegInfinity = False"
| "jsless PosInfinity b = False"
| "jsless NegInfinity b = True"
| "jsless a PosInfinity = True"

fun jsmax :: "jsnum \<Rightarrow> jsnum \<Rightarrow> jsnum" where
  "jsmax (Num x) (Num y) = Num (max x y)"
| "jsmax NaN b = NaN"
| "jsmax a NaN = NaN"
| "jsmax PosInfinity b = PosInfinity"
| "jsmax a PosInfinity = PosInfinity"
| "jsmax NegInfinity b = b"
| "jsmax a NegInfinity = a"

definition inRange :: "jsnum \<Rightarrow> jsnum \<Rightarrow> jsnum \<Rightarrow> bool" where
  "inRange rangeStart rangeEnd t = ((jsless rangeStart t \<or> rangeStart = t) \<and> jsless t rangeEnd)"

definition specFilterThreadSamplesToRange :: "Thread \<Rightarrow> jsnum \<Rightarrow> jsnum \<Rightarrow> Thread" where
  "specFilterThreadSamplesToRange thread rangeStart rangeEnd =
     thread
       \<lparr>samples := (samples thread)
          \<lparr>SamplesTable.time := filter (inRange rangeStart rangeEnd) (SamplesTable.time (samples thread))\<rparr>,
        markers := (markers thread)
          \<lparr>MarkersTable.time := filter (inRange rangeStart rangeEnd) (MarkersTable.time (markers thread))\<rparr>\<rparr>"

definition specGetTimeRangeForThread :: "Thread \<Rightarrow> jsnum \<Rightarrow> StartEndRange" where
  "specGetTimeRangeForThread thread sampleInterval =
     (case SamplesTable.time (samples thread) of
        [] \<Rightarrow> \<lparr>start = PosInfinity, end' = NegInfinity\<rparr>
      | t # ts \<Rightarrow> \<lparr>start = t, end' = jsadd (last (t # ts)) sampleInterval\<rparr>)"

definition specGetTimeRangeIncludingAllThreads :: "Profile \<Rightarrow> StartEndRange" where
  "specGetTimeRangeIncludingAllThreads prof =
     \<lparr>start = foldl jsmin PosInfinity
        (map (\<lambda>thread. start (specGetTimeRangeForThread thread (interval (meta prof)))) (threads prof)),
      end' = foldl jsmax NegInfinity
        (map (\<lambda>thread. end' (specGetTimeRangeForThread thread (interval (meta prof)))) (threads prof))\<rparr>"

definition specProfileData :: ProfileData where
  "specProfileData =
     \<lparr>filterThreadSamplesToRange = specFilterThreadSamplesToRange,
      getTimeRangeForThread = specGetTimeRangeForThread,
      getTimeRangeIncludingAllThreads = specGetTimeRangeIncludingAllThreads\<rparr>"

subsection \<open>Two profiles to merge\<close>

text \<open>
  Two small profiles for the examples: categories \<open>[A, B]\<close> and \<open>[B, C]\<close>, intervals \<open>1\<close> and
  \<open>0.5\<close>, one thread each with pid \<open>1234\<close>. The first thread has recorded no end; the second
  has an \<open>unregisterTime\<close>. The first state has committed the range from \<open>1\<close> to \<open>3\<close>.
\<close>

definition catA :: Category where "catA = \<lparr>Category.name = ''A'', color = ''grey''\<rparr>"
definition catB :: Category where "catB = \<lparr>Category.name = ''B'', color = ''blue''\<rparr>"
definition catB' :: Category where "catB' = \<lparr>Category.name = ''B'', color = ''green''\<rparr>"
definition catC :: Category where "catC = \<lparr>Category.name = ''C'', color = ''red''\<rparr>"

definition thread1 :: Thread where
  "thread1 =
     \<lparr>Thread.pid = ''1234'', processName = Some ''Web Content'', Thread.name = ''GeckoMain'',
      registerTime = Num 90, unregisterTime = None,
      processStartupTime = Num 80, processShutdownTime = None,
      stackTable = \<lparr>StackTable.category = [0, 1, 1]\<rparr>,
      frameTable = \<lparr>FrameTable.category = [Some 1, None]\<rparr>,
      samples = \<lparr>SamplesTable.time = [Num 100, Num 101, Num 102, Num 103]\<rparr>,
      markers = \<lparr>MarkersTable.time = [Num 100, Num 102]\<rparr>\<rparr>"

definition thread2 :: Thread where
  "thread2 =
     \<lparr>Thread.pid = ''1234'', processName = None, Thread.name = ''Compositor'',
      registerTime = Num 7, unregisterTime = Some (Num 12),
      processStartupTime = Num 5, processShutdownTime = None,
      stackTable = \<lparr>StackTable.category = [1, 0]\<rparr>,
      frameTable = \<lparr>FrameTable.category = [None, Some 0]\<rparr>,
      samples = \<lparr>SamplesTable.time = [Num 8, Num 9]\<rparr>,
      markers = \<lparr>MarkersTable.time = [Num 9]\<rparr>\<rparr>"

definition profile1 :: Profile where
  "profile1 = \<lparr>meta = \<lparr>interval = Num 1, ProfileMeta.categories = [catA, catB]\<rparr>, threads = [thread1]\<rparr>"

definition profile2 :: Profile where
  "profile2 = \<lparr>meta = \<lparr>interval = Num 0.5, ProfileMeta.categories = [catB', catC]\<rparr>, threads = [thread2]\<rparr>"

definition state1 :: "(string, string) UrlState" where
  "state1 = \<lparr>profileSpecific =
     \<lparr>selectedThread = Some 0, transforms = Map.empty, implementation = ''combined'',
      committedRanges = Some [\<lparr>start = Num 0, end' = Num 4\<rparr>, \<lparr>start = Num 1, end' = Num 3\<rparr>]\<rparr>\<rparr>"

definition state2 :: "(string, string) UrlState" where
  "state2 = \<lparr>profileSpecific =
     \<lparr>selectedThread = Some 0, transforms = [0 \<mapsto> ''focus''], implementation = ''js'',
      committedRanges = Some []\<rparr>\<rparr>"

text \<open>
  What the merge of the two profiles is to return, written out: the merged profile with the
  two lists for the caller, and the two states after the call.
\<close>

definition mergedThread1 :: Thread where
  "mergedThread1 =
     \<lparr>Thread.pid = ''1234 from profile 1'', processName = Some ''Profile 1: Web Content'',
      Thread.name = ''GeckoMain'',
      registerTime = Num (- 11), unregisterTime = Some (Num 2),
      processStartupTime = Num (- 21), processShutdownTime = None,
      stackTable = \<lparr>StackTable.category = [0, 1, 1]\<rparr>,
      frameTable = \<lparr>FrameTable.category = [Some 1, None]\<rparr>,
      samples = \<lparr>SamplesTable.time = [Num 0, Num 1]\<rparr>,
      markers = \<lparr>MarkersTable.time = [Num 1]\<rparr>\<rparr>"

definition mergedThread2 :: Thread where
  "mergedThread2 =
     \<lparr>Thread.pid = ''1234 from profile 2'', processName = Some ''Profile 2: Compositor'',
      Thread.name = ''Compositor'',
      registerTime = Num (- 1), unregisterTime = Some (Num 4),
      processStartupTime = Num (- 3), processShutdownTime = None,
      stackTable = \<lparr>StackTable.category = [2, 1]\<rparr>,
      frameTable = \<lparr>FrameTable.category = [None, Some 1]\<rparr>,
      samples = \<lparr>SamplesTable.time = [Num 0, Num 1]\<rparr>,
      markers = \<lparr>MarkersTable.time = [Num 1]\<rparr>\<rparr>"

definition mergedProfiles12 :: "(string, string) MergedProfiles" where
  "mergedProfiles12 =
     \<lparr>profile =
        \<lparr>meta = \<lparr>interval = Num 0.5, ProfileMeta.categories = [catA, catB, catC]\<rparr>,
         threads = [mergedThread1, mergedThread2]\<rparr>,
      transformStacks = Map.empty(0 := None, 1 := Some ''focus''),
      implementationFilters = [''combined'', ''js'']\<rparr>"

definition statesAfter12 :: "(string, string) UrlState list" where
  "statesAfter12 =
     [\<lparr>profileSpecific =
        \<lparr>selectedThread = Some 0, transforms = Map.empty, implementation = ''combined'',
         committedRanges = Some [\<lparr>start = Num 0, end' = Num 4\<rparr>]\<rparr>\<rparr>,
      state2]"


definition profile4 :: Profile where
  "profile4 =
     \<lparr>meta = \<lparr>interval = Num 1, ProfileMeta.categories = [catA, catB]\<rparr>,
      threads = [thread2\<lparr>stackTable := \<lparr>StackTable.category = [1, 7]\<rparr>\<rparr>]\<rparr>"

text \<open>A state with no selected thread, and a state that selects a thread out of range.\<close>

definition stateNull :: "(string, string) UrlState" where
  "stateNull = \<lparr>profileSpecific =
     \<lparr>selectedThread = None, transforms = Map.empty, implementation = ''combined'',
      committedRanges = Some []\<rparr>\<rparr>"

definition stateOutOfRange :: "(string, string) UrlState" where
  "stateOutOfRange = \<lparr>profileSpecific =
     \<lparr>selectedThread = Some 3, transforms = Map.empty, implementation = ''combined'',
      committedRanges = Some []\<rparr>\<rparr>"

section \<open>Properties\<close>

subsection \<open>Merging the categories\<close>

lemma indexOfName_None: "indexOfName n cs = None \<longleftrightarrow> n \<notin> Category.name ` set cs"
  by (induction cs) auto

lemma indexOfName_append:
  "indexOfName n (xs @ ys) =
     (case indexOfName n xs of
        Some k \<Rightarrow> Some k
      | None \<Rightarrow> map_option (\<lambda>k. length xs + k) (indexOfName n ys))"
  by (induction xs) (cases "indexOfName n ys"; auto split: option.splits)+

lemma indexOfName_Some:
  "indexOfName n cs = Some j \<Longrightarrow> j < length cs \<and> Category.name (cs ! j) = n \<and> find (\<lambda>c. Category.name c = n) cs = Some (cs ! j)"
  by (induction cs arbitrary: j) (auto split: if_splits)

lemma mergeCategoryList_inv:
  assumes "\<forall>n. inserted n = indexOfName n newCats"
    and "mergeCategoryList i cs (newCats, inserted, tmap) = (newCats', inserted', tmap')"
  shows "newCats' = newCats @ firstOccurrences (Category.name ` set newCats) cs
       \<and> (\<forall>n. inserted' n = indexOfName n newCats')
       \<and> (\<forall>j. tmap' j = (if i \<le> j \<and> j < i + length cs
                           then indexOfName (Category.name (cs ! (j - i))) newCats' else tmap j))"
  using assms
proof (induction cs arbitrary: i newCats inserted tmap)
  case Nil
  then show ?case by auto
next
  case (Cons c cs)
  show ?case
  proof (cases "inserted (Category.name c)")
    case None
    let ?nc = "newCats @ [c]"
    let ?ins = "inserted(Category.name c \<mapsto> length newCats)"
    have notin: "Category.name c \<notin> Category.name ` set newCats"
      using None Cons.prems(1) by (simp add: indexOfName_None)
    have inv: "\<forall>n. ?ins n = indexOfName n ?nc"
      using Cons.prems(1) None by (auto simp: indexOfName_append split: option.splits)
    have step: "mergeCategoryList (Suc i) cs (?nc, ?ins, tmap(i \<mapsto> length newCats)) = (newCats', inserted', tmap')"
      using Cons.prems(2) None by simp
    note IH = Cons.IH[OF inv step]
    have ext: "indexOfName (Category.name c) newCats' = Some (length newCats)"
      using IH notin by (simp add: indexOfName_append indexOfName_None[symmetric] split: option.splits)
    show ?thesis
    proof (intro conjI allI)
      show "newCats' = newCats @ firstOccurrences (Category.name ` set newCats) (c # cs)"
        using IH notin by simp
      show "\<And>n. inserted' n = indexOfName n newCats'" using IH by simp
      fix j
      show "tmap' j = (if i \<le> j \<and> j < i + length (c # cs)
                           then indexOfName (Category.name ((c # cs) ! (j - i))) newCats' else tmap j)"
      proof (cases "j = i")
        case True
        then show ?thesis using IH ext by simp
      next
        case False
        then show ?thesis using IH by (auto simp: nth_Cons' Suc_diff_Suc less_Suc_eq_le split: if_splits) 
      qed
    qed
  next
    case (Some idx)
    have isin: "Category.name c \<in> Category.name ` set newCats"
      using Some Cons.prems(1) by (metis indexOfName_None option.distinct(1))
    have step: "mergeCategoryList (Suc i) cs (newCats, inserted, tmap(i \<mapsto> idx)) = (newCats', inserted', tmap')"
      using Cons.prems(2) Some by simp
    note IH = Cons.IH[OF Cons.prems(1) step]
    have ext: "indexOfName (Category.name c) newCats' = Some idx"
      using IH Some Cons.prems(1) by (simp add: indexOfName_append)
    show ?thesis
    proof (intro conjI allI)
      show "newCats' = newCats @ firstOccurrences (Category.name ` set newCats) (c # cs)"
        using IH isin by simp
      show "\<And>n. inserted' n = indexOfName n newCats'" using IH by simp
      fix j
      show "tmap' j = (if i \<le> j \<and> j < i + length (c # cs)
                           then indexOfName (Category.name ((c # cs) ! (j - i))) newCats' else tmap j)"
      proof (cases "j = i")
        case True
        then show ?thesis using IH ext by simp
      next
        case False
        then show ?thesis using IH by (auto simp: nth_Cons' Suc_diff_Suc less_Suc_eq_le split: if_splits) 
      qed
    qed
  qed
qed


lemma firstOccurrences_names:
  "Category.name ` set (firstOccurrences seen cs) = Category.name ` set cs - seen"
  by (induction cs arbitrary: seen) auto

lemma firstOccurrences_append:
  "firstOccurrences seen (xs @ ys) =
     firstOccurrences seen xs @ firstOccurrences (seen \<union> Category.name ` set xs) ys"
proof (induction xs arbitrary: seen)
  case Nil
  show ?case by simp
next
  case (Cons x xs)
  have "Category.name x \<in> seen \<Longrightarrow> seen \<union> Category.name ` set (x # xs) = seen \<union> Category.name ` set xs"
    by auto
  then show ?case by (simp add: Cons.IH)
qed

lemma firstOccurrences_distinct: "distinct (map Category.name (firstOccurrences seen cs))"
proof (induction cs arbitrary: seen)
  case Nil
  show ?case by simp
next
  case (Cons c cs)
  have "Category.name c \<notin> Category.name ` set (firstOccurrences (insert (Category.name c) seen) cs)"
    by (simp add: firstOccurrences_names)
  then show ?case using Cons.IH by simp
qed

lemma firstOccurrences_length: "length (firstOccurrences seen cs) \<le> length cs"
  by (induction cs arbitrary: seen) (auto simp: le_SucI)

lemma firstOccurrences_find:
  "find (\<lambda>c. Category.name c = n) (firstOccurrences seen cs) =
     (if n \<in> seen then None else find (\<lambda>c. Category.name c = n) cs)"
proof (induction cs arbitrary: seen)
  case Nil
  show ?case by simp
next
  case (Cons c cs)
  show ?case by (auto simp: Cons.IH)
qed

lemma indexOfName_extend:
  "n \<in> Category.name ` set xs \<Longrightarrow> indexOfName n (xs @ ys) = indexOfName n xs"
  by (cases "indexOfName n xs") (simp_all add: indexOfName_None indexOfName_append)

lemma mergeCategoryLists_inv:
  assumes "\<forall>n. inserted n = indexOfName n newCats"
    and "mergeCategoryLists cls (newCats, inserted, maps) = (newCats', inserted', maps')"
  shows "newCats' = newCats @ firstOccurrences (Category.name ` set newCats) (concat cls)
       \<and> length maps' = length maps + length cls
       \<and> (\<forall>k<length maps. maps' ! k = maps ! k)
       \<and> (\<forall>k<length cls. \<forall>j. (maps' ! (length maps + k)) j =
             (if j < length (cls ! k)
              then indexOfName (Category.name (cls ! k ! j)) newCats' else None))"
  using assms
proof (induction cls arbitrary: newCats inserted maps)
  case Nil
  then show ?case by simp
next
  case (Cons cs cls)
  obtain X ins tmap where inner: "mergeCategoryList 0 cs (newCats, inserted, Map.empty) = (X, ins, tmap)"
    by (cases "mergeCategoryList 0 cs (newCats, inserted, Map.empty)") auto
  note I = mergeCategoryList_inv[OF Cons.prems(1) inner]
  have X: "X = newCats @ firstOccurrences (Category.name ` set newCats) cs" using I by simp
  have inv: "\<forall>n. ins n = indexOfName n X" using I by simp
  have tm: "\<And>j. tmap j = (if j < length cs then indexOfName (Category.name (cs ! j)) X else None)"
    using I by simp
  have step: "mergeCategoryLists cls (X, ins, maps @ [tmap]) = (newCats', inserted', maps')"
    using Cons.prems(2) inner by simp
  note IH = Cons.IH[OF inv step]
  have namesX: "Category.name ` set X = Category.name ` set newCats \<union> Category.name ` set cs"
    unfolding X by (auto simp: firstOccurrences_names image_Un)
  have N: "newCats' = X @ firstOccurrences (Category.name ` set X) (concat cls)" using IH by simp
  have len: "length maps' = length maps + length (cs # cls)" using IH by simp
  have keep: "\<And>k. k < Suc (length maps) \<Longrightarrow> maps' ! k = (maps @ [tmap]) ! k"
    using IH by simp
  have later: "\<And>k j. k < length cls \<Longrightarrow> (maps' ! (Suc (length maps) + k)) j =
             (if j < length (cls ! k)
              then indexOfName (Category.name (cls ! k ! j)) newCats' else None)"
    using IH by simp
  have c1: "newCats' = newCats @ firstOccurrences (Category.name ` set newCats) (concat (cs # cls))"
  proof -
    have "newCats' = X @ firstOccurrences (Category.name ` set newCats \<union> Category.name ` set cs) (concat cls)"
      using N namesX by simp
    then show ?thesis by (simp add: X firstOccurrences_append)
  qed
  have c3: "\<forall>k<length maps. maps' ! k = maps ! k"
    using keep by (simp add: nth_append)
  have here: "\<And>j. (maps' ! length maps) j =
             (if j < length cs then indexOfName (Category.name (cs ! j)) newCats' else None)"
  proof -
    fix j
    have "maps' ! length maps = tmap" using keep[of "length maps"] by simp
    moreover have "j < length cs \<Longrightarrow> indexOfName (Category.name (cs ! j)) newCats' = indexOfName (Category.name (cs ! j)) X"
      unfolding N by (rule indexOfName_extend) (simp add: namesX)
    ultimately show "(maps' ! length maps) j =
             (if j < length cs then indexOfName (Category.name (cs ! j)) newCats' else None)"
      by (simp add: tm)
  qed
  have c4: "\<forall>k<length (cs # cls). \<forall>j. (maps' ! (length maps + k)) j =
             (if j < length ((cs # cls) ! k)
              then indexOfName (Category.name ((cs # cls) ! k ! j)) newCats' else None)"
  proof (intro allI impI)
    fix k j
    assume k: "k < length (cs # cls)"
    show "(maps' ! (length maps + k)) j =
             (if j < length ((cs # cls) ! k)
              then indexOfName (Category.name ((cs # cls) ! k ! j)) newCats' else None)"
    proof (cases k)
      case 0
      then show ?thesis using here by simp
    next
      case (Suc k')
      then show ?thesis using later[of k' j] k by simp
    qed
  qed
  show ?case using c1 len c3 c4 by blast
qed

lemma mergeCategories_spec:
  fixes categoriesPerThread :: "CategoryList list"
  defines "r \<equiv> mergeCategories categoriesPerThread"
  shows "MergedCategories.categories r = firstOccurrences {} (concat categoriesPerThread)"
    and "distinct (map Category.name (MergedCategories.categories r))"
    and "length (translationMaps r) = length categoriesPerThread"
    and "\<forall>k<length categoriesPerThread. dom (translationMaps r ! k) = {..<length (categoriesPerThread ! k)}"
    and "\<forall>k<length categoriesPerThread. \<forall>i<length (categoriesPerThread ! k).
           \<exists>j<length (MergedCategories.categories r).
             (translationMaps r ! k) i = Some j
           \<and> find (\<lambda>c. Category.name c = Category.name (categoriesPerThread ! k ! i))
                 (concat categoriesPerThread) = Some (MergedCategories.categories r ! j)"
    and "length (MergedCategories.categories r) \<le> sum_list (map length categoriesPerThread)"
proof -
  obtain X ins maps where run: "mergeCategoryLists categoriesPerThread ([], Map.empty, []) = (X, ins, maps)"
    by (cases "mergeCategoryLists categoriesPerThread ([], Map.empty, [])") auto
  have r: "MergedCategories.categories r = X" "translationMaps r = maps"
    by (simp_all add: r_def mergeCategories_def run)
  have inv0: "\<forall>n. Map.empty n = indexOfName n []" by simp
  note I = mergeCategoryLists_inv[OF inv0 run]
  show c1: "MergedCategories.categories r = firstOccurrences {} (concat categoriesPerThread)"
    using I r by simp
  show "distinct (map Category.name (MergedCategories.categories r))"
    unfolding c1 by (rule firstOccurrences_distinct)
  show "length (translationMaps r) = length categoriesPerThread" using I r by simp
  have tm: "\<And>k j. k < length categoriesPerThread \<Longrightarrow> (maps ! k) j =
             (if j < length (categoriesPerThread ! k)
              then indexOfName (Category.name (categoriesPerThread ! k ! j)) X else None)"
    using I by simp
  have names: "Category.name ` set X = Category.name ` set (concat categoriesPerThread)"
    using c1 r by (simp add: firstOccurrences_names)
  have total: "\<And>k i. k < length categoriesPerThread \<Longrightarrow> i < length (categoriesPerThread ! k)
       \<Longrightarrow> \<exists>j. indexOfName (Category.name (categoriesPerThread ! k ! i)) X = Some j"
  proof -
    fix k i assume k: "k < length categoriesPerThread" and i: "i < length (categoriesPerThread ! k)"
    have "categoriesPerThread ! k ! i \<in> set (concat categoriesPerThread)"
      using k i by (auto intro!: bexI[of _ "categoriesPerThread ! k"])
    then have "Category.name (categoriesPerThread ! k ! i) \<in> Category.name ` set X"
      unfolding names by (rule imageI)
    then show "\<exists>j. indexOfName (Category.name (categoriesPerThread ! k ! i)) X = Some j"
      by (cases "indexOfName (Category.name (categoriesPerThread ! k ! i)) X") (simp_all add: indexOfName_None)
  qed
  show "\<forall>k<length categoriesPerThread. dom (translationMaps r ! k) = {..<length (categoriesPerThread ! k)}"
  proof (intro allI impI)
    fix k assume k: "k < length categoriesPerThread"
    show "dom (translationMaps r ! k) = {..<length (categoriesPerThread ! k)}"
      using total[OF k] by (auto simp: r tm[OF k] dom_def split: if_splits)
  qed
  show "\<forall>k<length categoriesPerThread. \<forall>i<length (categoriesPerThread ! k).
           \<exists>j<length (MergedCategories.categories r).
             (translationMaps r ! k) i = Some j
           \<and> find (\<lambda>c. Category.name c = Category.name (categoriesPerThread ! k ! i))
                 (concat categoriesPerThread) = Some (MergedCategories.categories r ! j)"
  proof (intro allI impI)
    fix k i assume k: "k < length categoriesPerThread" and i: "i < length (categoriesPerThread ! k)"
    let ?n = "Category.name (categoriesPerThread ! k ! i)"
    obtain j where j: "indexOfName ?n X = Some j" using total[OF k i] by blast
    note S = indexOfName_Some[OF j]
    have "find (\<lambda>c. Category.name c = ?n) X = find (\<lambda>c. Category.name c = ?n) (concat categoriesPerThread)"
      using c1 r by (simp add: firstOccurrences_find)
    then have "find (\<lambda>c. Category.name c = ?n) (concat categoriesPerThread) = Some (X ! j)"
      using S by simp
    then show "\<exists>j<length (MergedCategories.categories r).
             (translationMaps r ! k) i = Some j
           \<and> find (\<lambda>c. Category.name c = ?n)
                 (concat categoriesPerThread) = Some (MergedCategories.categories r ! j)"
      using S j i by (auto simp: r tm[OF k])
  qed
  show "length (MergedCategories.categories r) \<le> sum_list (map length categoriesPerThread)"
    unfolding c1 using firstOccurrences_length[of "{}" "concat categoriesPerThread"]
    by (simp add: length_concat)
qed


lemma translationMaps_range:
  assumes "k < length categoriesPerThread"
    and "(translationMaps (mergeCategories categoriesPerThread) ! k) c = Some j"
  shows "j < length (MergedCategories.categories (mergeCategories categoriesPerThread))"
proof -
  have "c \<in> dom (translationMaps (mergeCategories categoriesPerThread) ! k)"
    using assms(2) by blast
  then have "c < length (categoriesPerThread ! k)"
    using mergeCategories_spec(4)[of categoriesPerThread] assms(1) by auto
  then show ?thesis
    using mergeCategories_spec(5)[of categoriesPerThread] assms by fastforce
qed

text \<open>
  C1. \<open>mergeCategories\<close> scans the inputs in order and the categories of each input in
  order. The merged list is the list of the first occurrences of each name, each kept as it
  is (so no two merged categories share a name); there is one translation map for each
  input, defined exactly on the indices of that input; and the map of input \<open>k\<close> sends index
  \<open>i\<close> to a position \<open>j\<close> of the merged list at which the merged list holds the first
  category, in the scan order, that has the name of category \<open>i\<close> of input \<open>k\<close>. The merged
  list is at most as long as the inputs together. Merging \<open>[A, B]\<close> and \<open>[B, C]\<close>, whatever
  the other attributes of the four categories, gives \<open>[A, B, C]\<close> with the first \<open>B\<close> and the
  translation maps \<open>{0 \<mapsto> 0, 1 \<mapsto> 1}\<close> and \<open>{0 \<mapsto> 1, 1 \<mapsto> 2}\<close>.
\<close>

theorem mergeCategories_first_name_wins:
  "MergedCategories.categories (mergeCategories cls) = firstOccurrences {} (concat cls)
 \<and> distinct (map Category.name (MergedCategories.categories (mergeCategories cls)))
 \<and> length (translationMaps (mergeCategories cls)) = length cls
 \<and> (\<forall>k<length cls. dom (translationMaps (mergeCategories cls) ! k) = {..<length (cls ! k)})
 \<and> (\<forall>k<length cls. \<forall>i<length (cls ! k).
       \<exists>j<length (MergedCategories.categories (mergeCategories cls)).
         (translationMaps (mergeCategories cls) ! k) i = Some j
       \<and> find (\<lambda>c. Category.name c = Category.name (cls ! k ! i)) (concat cls)
           = Some (MergedCategories.categories (mergeCategories cls) ! j))
 \<and> length (MergedCategories.categories (mergeCategories cls)) \<le> sum_list (map length cls)
 \<and> mergeCategories
       [[\<lparr>Category.name = ''A'', color = a\<rparr>, \<lparr>Category.name = ''B'', color = b\<rparr>],
        [\<lparr>Category.name = ''B'', color = b'\<rparr>, \<lparr>Category.name = ''C'', color = c\<rparr>]]
     = \<lparr>MergedCategories.categories =
          [\<lparr>Category.name = ''A'', color = a\<rparr>, \<lparr>Category.name = ''B'', color = b\<rparr>,
           \<lparr>Category.name = ''C'', color = c\<rparr>],
        translationMaps = [[0 \<mapsto> 0, 1 \<mapsto> 1], [0 \<mapsto> 1, 1 \<mapsto> 2]]\<rparr>"
proof -
  have example: "mergeCategories
       [[\<lparr>Category.name = ''A'', color = a\<rparr>, \<lparr>Category.name = ''B'', color = b\<rparr>],
        [\<lparr>Category.name = ''B'', color = b'\<rparr>, \<lparr>Category.name = ''C'', color = c\<rparr>]]
     = \<lparr>MergedCategories.categories =
          [\<lparr>Category.name = ''A'', color = a\<rparr>, \<lparr>Category.name = ''B'', color = b\<rparr>,
           \<lparr>Category.name = ''C'', color = c\<rparr>],
        translationMaps = [[0 \<mapsto> 0, 1 \<mapsto> 1], [0 \<mapsto> 1, 1 \<mapsto> 2]]\<rparr>"
  proof -
    have two: "(2::nat) = Suc (Suc 0)" by simp
    show ?thesis unfolding mergeCategories_def two by simp
  qed
  show ?thesis
    by (intro conjI mergeCategories_spec example)
qed



theorem mergeCategories_first_name_wins_witness:
  "dom (translationMaps (mergeCategories [[catA, catB], [catB', catC]]) ! 1) = {..<2}
 \<and> MergedCategories.categories (mergeCategories [[catA, catB], [catB', catC]]) = [catA, catB, catC]
 \<and> length (MergedCategories.categories (mergeCategories [[catA, catB], [catB', catC]])) \<le> 4"
proof -
  let ?cls = "[[catA, catB], [catB', catC]]"
  note T = mergeCategories_first_name_wins[of ?cls]
  have k: "(1::nat) < length ?cls" by simp
  have "dom (translationMaps (mergeCategories ?cls) ! 1) = {..<length (?cls ! 1)}"
    using T[THEN conjunct2, THEN conjunct2, THEN conjunct2, THEN conjunct1, rule_format, OF k] .
  then have d: "dom (translationMaps (mergeCategories ?cls) ! 1) = {..<2}" by simp
  have "MergedCategories.categories (mergeCategories ?cls) = firstOccurrences {} (concat ?cls)"
    using T[THEN conjunct1] .
  then have m: "MergedCategories.categories (mergeCategories ?cls) = [catA, catB, catC]"
    by (simp add: catA_def catB_def catB'_def catC_def)
  have "length (MergedCategories.categories (mergeCategories ?cls)) \<le> sum_list (map length ?cls)"
    using T[THEN conjunct2, THEN conjunct2, THEN conjunct2, THEN conjunct2, THEN conjunct2, THEN conjunct1] .
  then have l: "length (MergedCategories.categories (mergeCategories ?cls)) \<le> 4" by simp
  from d m l show ?thesis by (intro conjI)
qed


subsection \<open>Remapping the indices\<close>

lemma find_SomeD: "find P xs = Some x \<Longrightarrow> x \<in> set xs \<and> P x"
  by (induction xs) (auto split: if_splits)

lemma find_SomeI: "\<exists>x\<in>set xs. P x \<Longrightarrow> \<exists>x. find P xs = Some x"
  by (induction xs) auto

lemma adjustCategories_InrD:
  "adjustCategories cs m = Inr rs \<Longrightarrow> map m cs = map Some rs"
  by (induction cs arbitrary: rs) (auto split: option.splits sum.splits)

lemma adjustCategories_InlD:
  "adjustCategories cs m = Inl e \<Longrightarrow>
     \<exists>c. find (\<lambda>c. m c = None) cs = Some c \<and> e = CategoryNotFound c"
  by (induction cs) (auto split: option.splits sum.splits)

lemma adjustNullableCategories_InrD:
  "adjustNullableCategories cs m = Inr rs \<Longrightarrow>
     map (\<lambda>x. case x of None \<Rightarrow> Some None | Some c \<Rightarrow> map_option Some (m c)) cs = map Some rs"
  by (induction cs m arbitrary: rs rule: adjustNullableCategories.induct)
     (auto split: option.splits sum.splits)

lemma adjustNullableCategories_InlD:
  "adjustNullableCategories cs m = Inl e \<Longrightarrow>
     \<exists>c. find (\<lambda>x. case x of None \<Rightarrow> False | Some c \<Rightarrow> m c = None) cs = Some (Some c)
          \<and> e = CategoryNotFound c"
  by (induction cs m rule: adjustNullableCategories.induct)
     (auto split: option.splits sum.splits)

lemma adjustNullableCategories_null:
  "adjustNullableCategories (replicate n None) m = Inr (replicate n None)"
  by (induction n) auto

text \<open>
  C2. Remapping with \<open>adjustCategories\<close>: when every index of the sequence is in the domain
  of the translation map, the result has, at each position, exactly the value the map gives
  for the index there. When some index is outside the domain, the call throws the error
  that carries the first such index. \<open>adjustNullableCategories\<close> does the same for the
  entries that are not \<open>null\<close>, and maps a \<open>null\<close> entry to \<open>null\<close> whatever the map
  is: a sequence of \<open>null\<close>s is returned as it is by every map.
\<close>

theorem adjustCategories_total_on_domain:
  "(set cs \<subseteq> dom m \<longrightarrow>
      (\<exists>rs. adjustCategories cs m = Inr rs \<and> length rs = length cs
           \<and> (\<forall>i<length cs. m (cs ! i) = Some (rs ! i))))
 \<and> (\<not> set cs \<subseteq> dom m \<longrightarrow>
      (\<exists>c. find (\<lambda>c. c \<notin> dom m) cs = Some c \<and> c \<in> set cs \<and> c \<notin> dom m
          \<and> adjustCategories cs m = Inl (CategoryNotFound c)))
 \<and> ((\<forall>c. Some c \<in> set ns \<longrightarrow> c \<in> dom m) \<longrightarrow>
      (\<exists>rs. adjustNullableCategories ns m = Inr rs \<and> length rs = length ns
           \<and> (\<forall>i<length ns. case ns ! i of None \<Rightarrow> rs ! i = None
                                         | Some c \<Rightarrow> rs ! i \<noteq> None \<and> m c = rs ! i)))
 \<and> (\<not> (\<forall>c. Some c \<in> set ns \<longrightarrow> c \<in> dom m) \<longrightarrow>
      (\<exists>c. Some c \<in> set ns \<and> c \<notin> dom m
          \<and> adjustNullableCategories ns m = Inl (CategoryNotFound c)))
 \<and> adjustNullableCategories (replicate n None) m' = Inr (replicate n None)"
proof (intro conjI impI)
  assume sub: "set cs \<subseteq> dom m"
  show "\<exists>rs. adjustCategories cs m = Inr rs \<and> length rs = length cs
           \<and> (\<forall>i<length cs. m (cs ! i) = Some (rs ! i))"
  proof (cases "adjustCategories cs m")
    case (Inl e)
    then obtain c where "find (\<lambda>c. m c = None) cs = Some c"
      by (auto dest: adjustCategories_InlD)
    then have "c \<in> set cs \<and> m c = None" by (rule find_SomeD)
    then show ?thesis using sub by auto
  next
    case (Inr rs)
    then have eq: "map m cs = map Some rs" by (rule adjustCategories_InrD)
    have len: "length rs = length cs" using arg_cong[OF eq, of length] by simp
    have "\<forall>i<length cs. m (cs ! i) = Some (rs ! i)"
    proof (intro allI impI)
      fix i assume i: "i < length cs"
      have "map m cs ! i = map Some rs ! i" using eq by simp
      then show "m (cs ! i) = Some (rs ! i)" using i len by simp
    qed
    then show ?thesis using Inr len by simp
  qed
next
  assume nsub: "\<not> set cs \<subseteq> dom m"
  have "\<exists>c. find (\<lambda>c. m c = None) cs = Some c"
    using nsub by (intro find_SomeI) (auto simp: dom_def)
  then obtain c where c: "find (\<lambda>c. m c = None) cs = Some c" by blast
  then have mem: "c \<in> set cs \<and> m c = None" by (rule find_SomeD)
  have fail: "adjustCategories cs m = Inl (CategoryNotFound c)"
  proof (cases "adjustCategories cs m")
    case (Inl e)
    then show ?thesis using c by (auto dest: adjustCategories_InlD)
  next
    case (Inr rs)
    then have "map m cs = map Some rs" by (rule adjustCategories_InrD)
    then have "m ` set cs = Some ` set rs" by (metis set_map)
    then show ?thesis using mem by (metis image_iff option.distinct(1))
  qed
  have "(\<lambda>c. c \<notin> dom m) = (\<lambda>c. m c = None)" by (auto simp: dom_def)
  then show "\<exists>c. find (\<lambda>c. c \<notin> dom m) cs = Some c \<and> c \<in> set cs \<and> c \<notin> dom m
          \<and> adjustCategories cs m = Inl (CategoryNotFound c)"
    using c mem fail by (auto simp: dom_def)
next
  assume ok: "\<forall>c. Some c \<in> set ns \<longrightarrow> c \<in> dom m"
  let ?f = "\<lambda>x. case x of None \<Rightarrow> Some None | Some c \<Rightarrow> map_option Some (m c)"
  show "\<exists>rs. adjustNullableCategories ns m = Inr rs \<and> length rs = length ns
           \<and> (\<forall>i<length ns. case ns ! i of None \<Rightarrow> rs ! i = None
                                         | Some c \<Rightarrow> rs ! i \<noteq> None \<and> m c = rs ! i)"
  proof (cases "adjustNullableCategories ns m")
    case (Inl e)
    then obtain c where "find (\<lambda>x. case x of None \<Rightarrow> False | Some c \<Rightarrow> m c = None) ns = Some (Some c)"
      by (auto dest: adjustNullableCategories_InlD)
    then have "Some c \<in> set ns \<and> m c = None" by (auto dest: find_SomeD)
    then show ?thesis using ok by auto
  next
    case (Inr rs)
    then have eq: "map ?f ns = map Some rs" by (rule adjustNullableCategories_InrD)
    have len: "length rs = length ns" using arg_cong[OF eq, of length] by simp
    have "\<forall>i<length ns. case ns ! i of None \<Rightarrow> rs ! i = None
                                         | Some c \<Rightarrow> rs ! i \<noteq> None \<and> m c = rs ! i"
    proof (intro allI impI)
      fix i assume i: "i < length ns"
      have "map ?f ns ! i = map Some rs ! i" using eq by simp
      then have "?f (ns ! i) = Some (rs ! i)" using i len by simp
      then show "case ns ! i of None \<Rightarrow> rs ! i = None
                                         | Some c \<Rightarrow> rs ! i \<noteq> None \<and> m c = rs ! i"
        by (cases "ns ! i"; cases "rs ! i") auto
    qed
    then show ?thesis using Inr len by simp
  qed
next
  assume bad: "\<not> (\<forall>c. Some c \<in> set ns \<longrightarrow> c \<in> dom m)"
  let ?P = "\<lambda>x. case x of None \<Rightarrow> False | Some c \<Rightarrow> m c = None"
  from bad obtain c0 where "Some c0 \<in> set ns" "m c0 = None" by (auto simp: dom_def)
  then have "\<exists>x\<in>set ns. ?P x" by (auto intro!: bexI[of _ "Some c0"])
  then obtain x where x: "find ?P ns = Some x"
    using find_SomeI[of ns ?P] by blast
  then have px: "x \<in> set ns \<and> ?P x" by (rule find_SomeD)
  then obtain c where xc: "x = Some c" "m c = None" by (cases x) auto
  let ?f = "\<lambda>x. case x of None \<Rightarrow> Some None | Some c \<Rightarrow> map_option Some (m c)"
  have fail: "adjustNullableCategories ns m = Inl (CategoryNotFound c)"
  proof (cases "adjustNullableCategories ns m")
    case (Inl e)
    then show ?thesis using x xc by (auto dest: adjustNullableCategories_InlD)
  next
    case (Inr rs)
    then have "map ?f ns = map Some rs" by (rule adjustNullableCategories_InrD)
    then have "?f ` set ns = Some ` set rs" by (metis set_map)
    moreover have "?f (Some c) = None" using xc by simp
    ultimately show ?thesis using px xc by (metis image_iff option.distinct(1))
  qed
  show "\<exists>c. Some c \<in> set ns \<and> c \<notin> dom m
          \<and> adjustNullableCategories ns m = Inl (CategoryNotFound c)"
    using px xc fail by (auto simp: dom_def)
next
  show "adjustNullableCategories (replicate n None) m' = Inr (replicate n None)"
    by (rule adjustNullableCategories_null)
qed


theorem adjustCategories_total_on_domain_witness:
  "adjustCategories [0, 1, 1] [0 \<mapsto> 3, 1 \<mapsto> 4] = Inr [3, 4, 4]
 \<and> adjustCategories [0, 5, 7] [0 \<mapsto> 3, 1 \<mapsto> 4] = Inl (CategoryNotFound 5)
 \<and> adjustNullableCategories [Some 1, None] [0 \<mapsto> 3, 1 \<mapsto> 4] = Inr [Some 4, None]
 \<and> adjustNullableCategories [None, Some 7] [0 \<mapsto> 3, 1 \<mapsto> 4] = Inl (CategoryNotFound 7)"
proof -
  let ?m = "[0 \<mapsto> 3, 1 \<mapsto> 4] :: TranslationMapForCategories"
  note good = adjustCategories_total_on_domain[of "[0, 1, 1]" ?m "[Some 1, None]" 0 ?m]
  note bad = adjustCategories_total_on_domain[of "[0, 5, 7]" ?m "[None, Some 7]" 0 ?m]
  have h1: "set [0, 1, 1] \<subseteq> dom ?m" by simp
  obtain rs where rs: "adjustCategories [0, 1, 1] ?m = Inr rs" "length rs = length [0::nat, 1, 1]"
      "\<forall>i<length [0::nat, 1, 1]. ?m ([0, 1, 1] ! i) = Some (rs ! i)"
    using good[THEN conjunct1, THEN mp, OF h1] by blast
  have "rs ! 0 = 3" "rs ! 1 = 4" "rs ! 2 = 4"
    using rs(3)[rule_format, of 0] rs(3)[rule_format, of 1] rs(3)[rule_format, of 2] by simp_all
  then have "rs = [3, 4, 4]"
    using rs(2) by (cases rs; cases "tl rs"; cases "tl (tl rs)") auto
  then have a: "adjustCategories [0, 1, 1] ?m = Inr [3, 4, 4]"
    using rs(1) by simp
  have h2: "\<not> set [0, 5, 7] \<subseteq> dom ?m" by simp
  obtain c where c: "find (\<lambda>c. c \<notin> dom ?m) [0, 5, 7] = Some c"
      "adjustCategories [0, 5, 7] ?m = Inl (CategoryNotFound c)"
    using bad[THEN conjunct2, THEN conjunct1, THEN mp, OF h2] by blast
  have b: "adjustCategories [0, 5, 7] ?m = Inl (CategoryNotFound 5)"
    using c by simp
  have h3: "\<forall>c. Some c \<in> set [Some 1, None] \<longrightarrow> c \<in> dom ?m" by simp
  obtain ns where ns: "adjustNullableCategories [Some 1, None] ?m = Inr ns"
      "length ns = length [Some (1::nat), None]"
      "\<forall>i<length [Some (1::nat), None]. case [Some 1, None] ! i of None \<Rightarrow> ns ! i = None
                                         | Some c \<Rightarrow> ns ! i \<noteq> None \<and> ?m c = ns ! i"
    using good[THEN conjunct2, THEN conjunct2, THEN conjunct1, THEN mp, OF h3] by blast
  have "ns ! 0 = Some 4" "ns ! 1 = None"
    using ns(3)[rule_format, of 0] ns(3)[rule_format, of 1] by simp_all
  then have "ns = [Some 4, None]"
    using ns(2) by (cases ns; cases "tl ns") auto
  then have c': "adjustNullableCategories [Some 1, None] ?m = Inr [Some 4, None]"
    using ns(1) by simp
  have h4: "\<not> (\<forall>c. Some c \<in> set [None, Some 7] \<longrightarrow> c \<in> dom ?m)" by simp
  obtain d where d: "Some d \<in> set [None, Some 7]"
      "adjustNullableCategories [None, Some 7] ?m = Inl (CategoryNotFound d)"
    using bad[THEN conjunct2, THEN conjunct2, THEN conjunct2, THEN conjunct1, THEN mp, OF h4] by blast
  have "adjustNullableCategories [None, Some 7] ?m = Inl (CategoryNotFound 7)"
    using d by simp
  with a b c' show ?thesis by (intro conjI)
qed

subsection \<open>The loop of \<open>mergeProfiles\<close>\<close>

lemma mergeLoop_Inr:
  assumes "mergeLoop U ps maps i sts (rp, ts, fs, vs) = Inr (rp', ts', fs', vs')"
  shows "meta rp' = meta rp
       \<and> length (threads rp') = length (threads rp) + length sts
       \<and> length vs' = length vs + length sts
       \<and> (\<forall>k<length (threads rp). threads rp' ! k = threads rp ! k)
       \<and> (\<forall>k<length vs. vs' ! k = vs ! k)
       \<and> (\<forall>k<length sts. \<exists>tr f. mergeThread U ps maps (i + k) (sts ! k)
              = Inr (threads rp' ! (length (threads rp) + k), tr, f, vs' ! (length vs + k)))"
  using assms
proof (induction sts arbitrary: i rp ts fs vs)
  case Nil
  then show ?case by simp
next
  case (Cons s sts)
  from Cons.prems obtain th tr f s' where
    step: "mergeThread U ps maps i s = Inr (th, tr, f, s')"
    by (cases "mergeThread U ps maps i s") auto
  let ?rp = "rp\<lparr>threads := threads rp @ [th]\<rparr>"
  have rest: "mergeLoop U ps maps (Suc i) sts (?rp, ts(i := tr), fs @ [f], vs @ [s']) = Inr (rp', ts', fs', vs')"
    using Cons.prems step by simp
  note IH = Cons.IH[OF rest]
  have m: "meta rp' = meta rp" using IH by simp
  have l1: "length (threads rp') = length (threads rp) + length (s # sts)" using IH by simp
  have l2: "length vs' = length vs + length (s # sts)" using IH by simp
  have k1: "\<And>k. k < Suc (length (threads rp)) \<Longrightarrow> threads rp' ! k = (threads rp @ [th]) ! k"
    using IH by simp
  have k2: "\<And>k. k < Suc (length vs) \<Longrightarrow> vs' ! k = (vs @ [s']) ! k"
    using IH by simp
  have later: "\<And>k. k < length sts \<Longrightarrow> \<exists>tr f. mergeThread U ps maps (Suc i + k) (sts ! k)
              = Inr (threads rp' ! (Suc (length (threads rp)) + k), tr, f, vs' ! (Suc (length vs) + k))"
    using IH by simp
  have c4: "\<forall>k<length (threads rp). threads rp' ! k = threads rp ! k"
    using k1 by (simp add: nth_append)
  have c5: "\<forall>k<length vs. vs' ! k = vs ! k"
    using k2 by (simp add: nth_append)
  have here: "threads rp' ! length (threads rp) = th" "vs' ! length vs = s'"
    using k1[of "length (threads rp)"] k2[of "length vs"] by simp_all
  have c6: "\<forall>k<length (s # sts). \<exists>tr f. mergeThread U ps maps (i + k) ((s # sts) ! k)
              = Inr (threads rp' ! (length (threads rp) + k), tr, f, vs' ! (length vs + k))"
  proof (intro allI impI)
    fix k assume k: "k < length (s # sts)"
    show "\<exists>tr f. mergeThread U ps maps (i + k) ((s # sts) ! k)
              = Inr (threads rp' ! (length (threads rp) + k), tr, f, vs' ! (length vs + k))"
    proof (cases k)
      case 0
      then show ?thesis using step here by simp
    next
      case (Suc k')
      then show ?thesis using later[of k'] k by simp
    qed
  qed
  show ?case using m l1 l2 c4 c5 c6 by blast
qed

lemma mergeLoop_Inl:
  assumes "mergeLoop U ps maps i sts acc = Inl e"
  shows "\<exists>k<length sts. mergeThread U ps maps (i + k) (sts ! k) = Inl e
           \<and> (\<forall>j<k. \<exists>r. mergeThread U ps maps (i + j) (sts ! j) = Inr r)"
  using assms
proof (induction sts arbitrary: i acc)
  case Nil
  then show ?case by simp
next
  case (Cons s sts)
  obtain rp ts fs vs where acc: "acc = (rp, ts, fs, vs)" by (cases acc) auto
  show ?case
  proof (cases "mergeThread U ps maps i s")
    case (Inl e')
    then have "e' = e" using Cons.prems acc by simp
    then show ?thesis using Inl by (intro exI[of _ 0]) simp
  next
    case (Inr r)
    obtain th tr f s' where r: "r = (th, tr, f, s')" by (cases r) auto
    have "mergeLoop U ps maps (Suc i) sts
            (rp\<lparr>threads := threads rp @ [th]\<rparr>, ts(i := tr), fs @ [f], vs @ [s']) = Inl e"
      using Cons.prems acc Inr r by simp
    from Cons.IH[OF this] obtain k where k: "k < length sts"
        "mergeThread U ps maps (Suc i + k) (sts ! k) = Inl e"
        "\<forall>j<k. \<exists>r. mergeThread U ps maps (Suc i + j) (sts ! j) = Inr r"
      by blast
    have "\<forall>j<Suc k. \<exists>r. mergeThread U ps maps (i + j) ((s # sts) ! j) = Inr r"
    proof (intro allI impI)
      fix j assume "j < Suc k"
      then show "\<exists>r. mergeThread U ps maps (i + j) ((s # sts) ! j) = Inr r"
        using Inr k(3) by (cases j) (auto simp del: split_paired_Ex)
    qed
    then show ?thesis using k(1,2) by (intro exI[of _ "Suc k"]) simp
  qed
qed

lemma mergeLoop_fails:
  assumes "k < length sts"
    and "mergeThread U ps maps (i + k) (sts ! k) = Inl e"
    and "\<forall>j<k. \<exists>r. mergeThread U ps maps (i + j) (sts ! j) = Inr r"
  shows "mergeLoop U ps maps i sts acc = Inl e"
proof (cases "mergeLoop U ps maps i sts acc")
  case (Inl e')
  from mergeLoop_Inl[OF Inl] obtain k' where k': "k' < length sts"
      "mergeThread U ps maps (i + k') (sts ! k') = Inl e'"
      "\<forall>j<k'. \<exists>r. mergeThread U ps maps (i + j) (sts ! j) = Inr r"
    by blast
  have "k' = k"
  proof (rule ccontr)
    assume "k' \<noteq> k"
    then consider "k' < k" | "k < k'" by linarith
    then show False
    proof cases
      case 1
      then show ?thesis using assms(3) k'(2) by auto
    next
      case 2
      then show ?thesis using k'(3) assms(2) by auto
    qed
  qed
  then show ?thesis using Inl k'(2) assms(2) by simp
next
  case (Inr r)
  obtain rp ts fs vs where acc: "acc = (rp, ts, fs, vs)" by (cases acc) auto
  obtain rp' ts' fs' vs' where r: "r = (rp', ts', fs', vs')" by (cases r) auto
  from mergeLoop_Inr[OF Inr[unfolded acc r]] assms(1)
  have "\<exists>tr f. mergeThread U ps maps (i + k) (sts ! k)
              = Inr (threads rp' ! (length (threads rp) + k), tr, f, vs' ! (length vs + k))"
    by blast
  then show ?thesis using assms(2) by auto
qed

text \<open>The result of a successful merge, input by input.\<close>

lemma mergeProfiles_Inr:
  assumes "mergeProfiles U ps sts = Inr (out, sts')"
  shows "interval (meta (profile out)) = Math_min (map (\<lambda>p. interval (meta p)) ps)"
    and "ProfileMeta.categories (meta (profile out))
           = MergedCategories.categories (mergeCategories (map (\<lambda>p. ProfileMeta.categories (meta p)) ps))"
    and "length (threads (profile out)) = length sts"
    and "length sts' = length sts"
    and "k < length sts \<Longrightarrow> \<exists>tr f. mergeThread U ps (mergedMaps ps) k (sts ! k)
              = Inr (threads (profile out) ! k, tr, f, sts' ! k)"
proof -
  let ?merged = "mergeCategories (map (\<lambda>p. ProfileMeta.categories (meta p)) ps)"
  let ?rp = "getEmptyProfile
            \<lparr>meta := (meta getEmptyProfile)
               \<lparr>interval := Math_min (map (\<lambda>p. interval (meta p)) ps),
                ProfileMeta.categories := MergedCategories.categories ?merged\<rparr>\<rparr>"
  obtain rp' ts' fs' vs' where loop:
    "mergeLoop U ps (translationMaps ?merged) 0 sts (?rp, Map.empty, [], []) = Inr (rp', ts', fs', vs')"
    using assms unfolding mergeProfiles_def Let_def
    by (cases "mergeLoop U ps (translationMaps ?merged) 0 sts (?rp, Map.empty, [], [])") auto
  have out: "profile out = rp'" "sts' = vs'"
    using assms loop unfolding mergeProfiles_def Let_def by auto
  note L = mergeLoop_Inr[OF loop]
  have e: "threads ?rp = []" by (simp add: getEmptyProfile_def)
  show "interval (meta (profile out)) = Math_min (map (\<lambda>p. interval (meta p)) ps)"
    using L out by simp
  show "ProfileMeta.categories (meta (profile out)) = MergedCategories.categories ?merged"
    using L out by simp
  show "length (threads (profile out)) = length sts" using L out e by simp
  show "length sts' = length sts" using L out by simp
  show "k < length sts \<Longrightarrow> \<exists>tr f. mergeThread U ps (mergedMaps ps) k (sts ! k)
              = Inr (threads (profile out) ! k, tr, f, sts' ! k)"
    using L out e unfolding mergedMaps_def by simp
qed

lemma mergeProfiles_Inl:
  assumes "mergeProfiles U ps sts = Inl e"
  shows "\<exists>k<length sts. mergeThread U ps (mergedMaps ps) k (sts ! k) = Inl e
           \<and> (\<forall>j<k. \<exists>r. mergeThread U ps (mergedMaps ps) j (sts ! j) = Inr r)"
proof -
  let ?merged = "mergeCategories (map (\<lambda>p. ProfileMeta.categories (meta p)) ps)"
  let ?rp = "getEmptyProfile
            \<lparr>meta := (meta getEmptyProfile)
               \<lparr>interval := Math_min (map (\<lambda>p. interval (meta p)) ps),
                ProfileMeta.categories := MergedCategories.categories ?merged\<rparr>\<rparr>"
  have "mergeLoop U ps (translationMaps ?merged) 0 sts (?rp, Map.empty, [], []) = Inl e"
    using assms unfolding mergeProfiles_def Let_def
    by (cases "mergeLoop U ps (translationMaps ?merged) 0 sts (?rp, Map.empty, [], [])") auto
  from mergeLoop_Inl[OF this] show ?thesis unfolding mergedMaps_def by simp
qed

lemma mergeProfiles_fails:
  assumes "k < length sts"
    and "mergeThread U ps (mergedMaps ps) k (sts ! k) = Inl e"
    and "\<forall>j<k. \<exists>r. mergeThread U ps (mergedMaps ps) j (sts ! j) = Inr r"
  shows "mergeProfiles U ps sts = Inl e"
proof -
  have "mergeLoop U ps (mergedMaps ps) 0 sts acc = Inl e" for acc
    using mergeLoop_fails[of k sts U ps "mergedMaps ps" 0 e acc] assms by simp
  then show ?thesis unfolding mergeProfiles_def Let_def mergedMaps_def by simp
qed


lemma mergeThread_Inr:
  assumes "mergeThread U ps maps i s = Inr (merged, tr, f, s')"
  shows "\<exists>thread. selectThread U ps maps i s = Inr (thread, tr, f, s')
           \<and> merged = setUnregisterTime U (interval (meta (ps ! i)))
                        (adjustThreadTimes (resetIdentity i thread))"
  using assms unfolding mergeThread_def
  by (cases "selectThread U ps maps i s") auto

lemma selectThread_Inr:
  assumes "selectThread U ps maps i s = Inr (thread, tr, f, s')"
  shows "\<exists>sel remapped.
           selectedThread (profileSpecific s) = Some sel
         \<and> i < length ps \<and> sel < length (threads (ps ! i))
         \<and> adjustThreadCategories (threads (ps ! i) ! sel) (maps ! i) = Inr remapped
         \<and> thread = filterToCommittedRange U
                       ((ps ! i)\<lparr>threads := (threads (ps ! i))[sel := remapped]\<rparr>)
                       remapped (fst (popCommittedRange s))
         \<and> s' = snd (popCommittedRange s)
         \<and> tr = transforms (profileSpecific s) sel
         \<and> f = implementation (profileSpecific s)"
  using assms unfolding selectThread_def
  by (auto split: option.splits if_splits sum.splits prod.splits)

lemma mergeProfiles_thread:
  assumes "mergeProfiles U ps sts = Inr (out, sts')" and "k < length sts"
  shows "\<exists>thread tr f.
           selectThread U ps (mergedMaps ps) k (sts ! k) = Inr (thread, tr, f, sts' ! k)
         \<and> threads (profile out) ! k
             = setUnregisterTime U (interval (meta (ps ! k)))
                 (adjustThreadTimes (resetIdentity k thread))"
proof -
  from mergeProfiles_Inr(5)[OF assms] obtain tr f where
    "mergeThread U ps (mergedMaps ps) k (sts ! k) = Inr (threads (profile out) ! k, tr, f, sts' ! k)"
    by blast
  from mergeThread_Inr[OF this] show ?thesis by blast
qed

lemma adjustThreadTimes_simps:
  "samples (adjustThreadTimes t) = adjustSampleTimestamps (samples t) (startTimeAdjustment t)"
  "markers (adjustThreadTimes t) = adjustMarkerTimestamps (markers t) (startTimeAdjustment t)"
  "registerTime (adjustThreadTimes t) = jsadd (registerTime t) (startTimeAdjustment t)"
  "processStartupTime (adjustThreadTimes t) = jsadd (processStartupTime t) (startTimeAdjustment t)"
  "processShutdownTime (adjustThreadTimes t)
     = map_option (\<lambda>x. jsadd x (startTimeAdjustment t)) (processShutdownTime t)"
  "unregisterTime (adjustThreadTimes t)
     = map_option (\<lambda>x. jsadd x (startTimeAdjustment t)) (unregisterTime t)"
  "pid (adjustThreadTimes t) = pid t"
  "processName (adjustThreadTimes t) = processName t"
  "Thread.name (adjustThreadTimes t) = Thread.name t"
  "stackTable (adjustThreadTimes t) = stackTable t"
  "frameTable (adjustThreadTimes t) = frameTable t"
  by (simp_all add: adjustThreadTimes_def Let_def split: option.splits)

lemma resetIdentity_simps:
  "samples (resetIdentity i t) = samples t"
  "markers (resetIdentity i t) = markers t"
  "registerTime (resetIdentity i t) = registerTime t"
  "processStartupTime (resetIdentity i t) = processStartupTime t"
  "processShutdownTime (resetIdentity i t) = processShutdownTime t"
  "unregisterTime (resetIdentity i t) = unregisterTime t"
  "stackTable (resetIdentity i t) = stackTable t"
  "frameTable (resetIdentity i t) = frameTable t"
  "Thread.name (resetIdentity i t) = Thread.name t"
  "pid (resetIdentity i t) = pid t @ '' from profile '' @ numberToString (i + 1)"
  "startTimeAdjustment (resetIdentity i t) = startTimeAdjustment t"
  by (simp_all add: resetIdentity_def startTimeAdjustment_def)

lemma setUnregisterTime_simps:
  "samples (setUnregisterTime U iv t) = samples t"
  "markers (setUnregisterTime U iv t) = markers t"
  "registerTime (setUnregisterTime U iv t) = registerTime t"
  "processStartupTime (setUnregisterTime U iv t) = processStartupTime t"
  "processShutdownTime (setUnregisterTime U iv t) = processShutdownTime t"
  "stackTable (setUnregisterTime U iv t) = stackTable t"
  "frameTable (setUnregisterTime U iv t) = frameTable t"
  "pid (setUnregisterTime U iv t) = pid t"
  "processName (setUnregisterTime U iv t) = processName t"
  "Thread.name (setUnregisterTime U iv t) = Thread.name t"
  "unregisterTime t = Some x \<Longrightarrow> unregisterTime (setUnregisterTime U iv t) = Some x"
  by (simp_all add: setUnregisterTime_def)


subsection \<open>The two profiles, merged\<close>

lemma numberToString_1_2:
  "numberToString 1 = ''1''" "numberToString 2 = ''2''"
  "numberToString (Suc 0) = ''1''" "numberToString (Suc (Suc 0)) = ''2''"
  by (simp_all add: numberToString.simps digit_def)

lemma mergedMaps_example: "mergedMaps [profile1, profile2] = [[0 \<mapsto> 0, 1 \<mapsto> 1], [0 \<mapsto> 1, 1 \<mapsto> 2]]"
proof -
  have two: "(2::nat) = Suc (Suc 0)" by simp
  show ?thesis
    unfolding mergedMaps_def mergeCategories_def two
    by (simp add: profile1_def profile2_def catA_def catB_def catB'_def catC_def)
qed

lemma selectThread_example1:
  "selectThread specProfileData [profile1, profile2] (mergedMaps [profile1, profile2]) 0 state1
     = Inr (thread1\<lparr>samples := \<lparr>SamplesTable.time = [Num 101, Num 102]\<rparr>,
                    markers := \<lparr>MarkersTable.time = [Num 102]\<rparr>\<rparr>,
            None, ''combined'', statesAfter12 ! 0)"
  unfolding mergedMaps_example
  by (simp add: selectThread_def state1_def profile1_def thread1_def adjustThreadCategories_def
      popCommittedRange_def filterToCommittedRange_def specProfileData_def
      specFilterThreadSamplesToRange_def specGetTimeRangeIncludingAllThreads_def
      specGetTimeRangeForThread_def inRange_def statesAfter12_def)


lemma selectThread_example2:
  "selectThread specProfileData [profile1, profile2] (mergedMaps [profile1, profile2]) (Suc 0) state2
     = Inr (thread2\<lparr>stackTable := \<lparr>StackTable.category = [2, 1]\<rparr>,
                    frameTable := \<lparr>FrameTable.category = [None, Some 1]\<rparr>\<rparr>,
            Some ''focus'', ''js'', state2)"
  unfolding mergedMaps_example
  by (simp add: selectThread_def state2_def profile2_def thread2_def adjustThreadCategories_def
      popCommittedRange_def filterToCommittedRange_def)

lemma mergeThread_example1:
  "mergeThread specProfileData [profile1, profile2] (mergedMaps [profile1, profile2]) 0 state1
     = Inr (mergedThread1, None, ''combined'', statesAfter12 ! 0)"
  unfolding mergeThread_def selectThread_example1
  by (simp add: thread1_def profile1_def mergedThread1_def setUnregisterTime_def
      adjustThreadTimes_def resetIdentity_def startTimeAdjustment_def adjustSampleTimestamps_def
      adjustMarkerTimestamps_def numberToString_1_2 specProfileData_def
      specGetTimeRangeForThread_def)

lemma mergeThread_example2:
  "mergeThread specProfileData [profile1, profile2] (mergedMaps [profile1, profile2]) (Suc 0) state2
     = Inr (mergedThread2, Some ''focus'', ''js'', state2)"
  unfolding mergeThread_def selectThread_example2
  by (simp add: thread2_def profile2_def mergedThread2_def setUnregisterTime_def
      adjustThreadTimes_def resetIdentity_def startTimeAdjustment_def adjustSampleTimestamps_def
      adjustMarkerTimestamps_def numberToString_1_2 specProfileData_def
      specGetTimeRangeForThread_def)

lemma mergeProfiles_example:
  "mergeProfiles specProfileData [profile1, profile2] [state1, state2]
     = Inr (mergedProfiles12, statesAfter12)"
proof -
  have c: "MergedCategories.categories
             (mergeCategories (map (\<lambda>p. ProfileMeta.categories (meta p)) [profile1, profile2]))
           = [catA, catB, catC]"
    by (simp add: mergeCategories_def profile1_def profile2_def catA_def catB_def catB'_def catC_def)
  have i: "Math_min (map (\<lambda>p. interval (meta p)) [profile1, profile2]) = Num 0.5"
    by (simp add: Math_min_def profile1_def profile2_def)
  show ?thesis
    unfolding mergeProfiles_def Let_def c i mergedMaps_def[symmetric]
    by (simp add: mergeThread_example1 mergeThread_example2 getEmptyProfile_def
        mergedProfiles12_def statesAfter12_def)
qed

subsection \<open>Start alignment\<close>

lemma startTimeAdjustment_no_samples:
  "SamplesTable.time (samples thread) = [] \<Longrightarrow> startTimeAdjustment thread = NaN"
  by (simp add: startTimeAdjustment_def)

text \<open>
  C3. For every thread of a merged profile: let \<open>thread\<close> be the selected thread of its input
  as the first half of the loop turn leaves it, that is after the committed range, if any,
  has been applied. The offset is the negation of the time of the first sample of \<open>thread\<close>.
  The merged thread has this offset added to every sample time, to every marker time, to
  \<open>registerTime\<close> and to \<open>processStartupTime\<close>; \<open>processShutdownTime\<close> and \<open>unregisterTime\<close> have
  it added when they are not \<open>null\<close> and stay \<open>null\<close> in the shifting step otherwise. When
  the first sample of \<open>thread\<close> has a finite time, the first sample of the merged thread is
  at time \<open>0\<close>.
\<close>

theorem mergeProfiles_first_sample_at_zero:
  assumes "mergeProfiles U ps sts = Inr (out, sts')" and "k < length sts"
  shows "\<exists>thread tr f s'.
      selectThread U ps (mergedMaps ps) k (sts ! k) = Inr (thread, tr, f, s')
    \<and> (let delta = startTimeAdjustment thread; merged = threads (profile out) ! k in
        (\<forall>t0 rest. SamplesTable.time (samples thread) = t0 # rest \<longrightarrow> delta = jsneg t0)
      \<and> SamplesTable.time (samples merged)
          = map (\<lambda>t. jsadd t delta) (SamplesTable.time (samples thread))
      \<and> MarkersTable.time (markers merged)
          = map (\<lambda>t. jsadd t delta) (MarkersTable.time (markers thread))
      \<and> registerTime merged = jsadd (registerTime thread) delta
      \<and> processStartupTime merged = jsadd (processStartupTime thread) delta
      \<and> processShutdownTime merged
          = (case processShutdownTime thread of None \<Rightarrow> None | Some t \<Rightarrow> Some (jsadd t delta))
      \<and> unregisterTime (adjustThreadTimes (resetIdentity k thread))
          = (case unregisterTime thread of None \<Rightarrow> None | Some t \<Rightarrow> Some (jsadd t delta))
      \<and> (\<forall>t. unregisterTime thread = Some t \<longrightarrow> unregisterTime merged = Some (jsadd t delta))
      \<and> (\<forall>r rest. SamplesTable.time (samples thread) = Num r # rest \<longrightarrow>
           (\<exists>rest'. SamplesTable.time (samples merged) = Num 0 # rest')))"
proof -
  from mergeProfiles_thread[OF assms] obtain thread tr f where
    sel: "selectThread U ps (mergedMaps ps) k (sts ! k) = Inr (thread, tr, f, sts' ! k)"
    and m: "threads (profile out) ! k
             = setUnregisterTime U (interval (meta (ps ! k)))
                 (adjustThreadTimes (resetIdentity k thread))"
    by blast
  let ?d = "startTimeAdjustment thread"
  let ?m = "threads (profile out) ! k"
  have d: "\<forall>t0 rest. SamplesTable.time (samples thread) = t0 # rest \<longrightarrow> ?d = jsneg t0"
    by (simp add: startTimeAdjustment_def)
  have s: "SamplesTable.time (samples ?m) = map (\<lambda>t. jsadd t ?d) (SamplesTable.time (samples thread))"
    by (simp add: m setUnregisterTime_simps adjustThreadTimes_simps resetIdentity_simps
        adjustSampleTimestamps_def)
  have mk: "MarkersTable.time (markers ?m) = map (\<lambda>t. jsadd t ?d) (MarkersTable.time (markers thread))"
    by (simp add: m setUnregisterTime_simps adjustThreadTimes_simps resetIdentity_simps
        adjustMarkerTimestamps_def)
  have r: "registerTime ?m = jsadd (registerTime thread) ?d"
    by (simp add: m setUnregisterTime_simps adjustThreadTimes_simps resetIdentity_simps)
  have p: "processStartupTime ?m = jsadd (processStartupTime thread) ?d"
    by (simp add: m setUnregisterTime_simps adjustThreadTimes_simps resetIdentity_simps)
  have sh: "processShutdownTime ?m
          = (case processShutdownTime thread of None \<Rightarrow> None | Some t \<Rightarrow> Some (jsadd t ?d))"
    by (simp add: m setUnregisterTime_simps adjustThreadTimes_simps resetIdentity_simps
        split: option.splits)
  have u: "unregisterTime (adjustThreadTimes (resetIdentity k thread))
          = (case unregisterTime thread of None \<Rightarrow> None | Some t \<Rightarrow> Some (jsadd t ?d))"
    by (simp add: adjustThreadTimes_simps resetIdentity_simps split: option.splits)
  have u': "\<forall>t. unregisterTime thread = Some t \<longrightarrow> unregisterTime ?m = Some (jsadd t ?d)"
    using u by (simp add: m setUnregisterTime_simps)
  have z: "\<forall>r rest. SamplesTable.time (samples thread) = Num r # rest \<longrightarrow>
           (\<exists>rest'. SamplesTable.time (samples ?m) = Num 0 # rest')"
    unfolding s by (simp add: startTimeAdjustment_def)
  show ?thesis
    unfolding Let_def using sel d s mk r p sh u u' z by blast
qed

text \<open>An instance of the theorem, on example inputs.\<close>

theorem mergeProfiles_first_sample_at_zero_witness:
  "mergeProfiles specProfileData [profile1, profile2] [state1, state2]
     = Inr (mergedProfiles12, statesAfter12)
 \<and> (0::nat) < length [state1, state2]
 \<and> SamplesTable.time (samples (threads (profile mergedProfiles12) ! 0)) = [Num 0, Num 1]
 \<and> MarkersTable.time (markers (threads (profile mergedProfiles12) ! 0)) = [Num 1]
 \<and> registerTime (threads (profile mergedProfiles12) ! 0) = Num (- 11)
 \<and> processShutdownTime (threads (profile mergedProfiles12) ! 0) = None"
proof -
  have k: "(0::nat) < length [state1, state2]" by simp
  from mergeProfiles_first_sample_at_zero[OF mergeProfiles_example k]
  obtain thread tr f s' where
    sel: "selectThread specProfileData [profile1, profile2] (mergedMaps [profile1, profile2]) 0
            ([state1, state2] ! 0) = Inr (thread, tr, f, s')"
    and s: "SamplesTable.time (samples (threads (profile mergedProfiles12) ! 0))
          = map (\<lambda>t. jsadd t (startTimeAdjustment thread)) (SamplesTable.time (samples thread))"
    and m: "MarkersTable.time (markers (threads (profile mergedProfiles12) ! 0))
          = map (\<lambda>t. jsadd t (startTimeAdjustment thread)) (MarkersTable.time (markers thread))"
    and r: "registerTime (threads (profile mergedProfiles12) ! 0)
          = jsadd (registerTime thread) (startTimeAdjustment thread)"
    and p: "processShutdownTime (threads (profile mergedProfiles12) ! 0)
          = (case processShutdownTime thread of None \<Rightarrow> None
             | Some t \<Rightarrow> Some (jsadd t (startTimeAdjustment thread)))"
    unfolding Let_def by blast
  have t: "thread = thread1\<lparr>samples := \<lparr>SamplesTable.time = [Num 101, Num 102]\<rparr>,
                    markers := \<lparr>MarkersTable.time = [Num 102]\<rparr>\<rparr>"
    using sel by (simp add: selectThread_example1)
  have d: "startTimeAdjustment thread = Num (- 101)"
    unfolding t by (simp add: startTimeAdjustment_def)
  show ?thesis
    using mergeProfiles_example s m r p unfolding d
    by (simp add: t thread1_def)
qed

subsection \<open>The committed range\<close>

lemma jsadd_commute: "jsadd a b = jsadd b a"
  by (cases a; cases b) simp_all

lemma popCommittedRange_cases:
  "popCommittedRange s =
     (case committedRanges (profileSpecific s) of
        None \<Rightarrow> (None, s)
      | Some ranges \<Rightarrow>
          if ranges = [] then (None, s)
          else (Some (last ranges),
                s\<lparr>profileSpecific := (profileSpecific s)\<lparr>committedRanges := Some (butlast ranges)\<rparr>\<rparr>))"
  by (simp add: popCommittedRange_def)

text \<open>
  C4. For every input of a successful merge: \<open>zeroAt\<close> is the \<open>start\<close> that
  \<open>getTimeRangeIncludingAllThreads\<close> returns for the whole input profile (with the categories
  of the selected thread rewritten). When the state's \<open>committedRanges\<close> is missing or empty,
  the thread goes on unfiltered and the state is left as it was. Otherwise the thread is
  replaced by \<open>filterThreadSamplesToRange\<close> of the thread, \<open>zeroAt + start\<close> and
  \<open>zeroAt + end\<close> of the last range, and the state after the call has lost exactly that last
  range and nothing else.
\<close>

theorem mergeProfiles_pops_committed_range:
  assumes "mergeProfiles U ps sts = Inr (out, sts')" and "k < length sts"
  shows "\<exists>sel remapped thread tr f.
      selectedThread (profileSpecific (sts ! k)) = Some sel
    \<and> sel < length (threads (ps ! k))
    \<and> adjustThreadCategories (threads (ps ! k) ! sel) (mergedMaps ps ! k) = Inr remapped
    \<and> selectThread U ps (mergedMaps ps) k (sts ! k) = Inr (thread, tr, f, sts' ! k)
    \<and> threads (profile out) ! k
        = setUnregisterTime U (interval (meta (ps ! k))) (adjustThreadTimes (resetIdentity k thread))
    \<and> (let zeroAt = start (getTimeRangeIncludingAllThreads U
                        ((ps ! k)\<lparr>threads := (threads (ps ! k))[sel := remapped]\<rparr>))
       in case committedRanges (profileSpecific (sts ! k)) of
            None \<Rightarrow> thread = remapped \<and> sts' ! k = sts ! k
          | Some ranges \<Rightarrow>
              if ranges = [] then thread = remapped \<and> sts' ! k = sts ! k
              else thread = filterThreadSamplesToRange U remapped
                              (jsadd zeroAt (start (last ranges)))
                              (jsadd zeroAt (end' (last ranges)))
                 \<and> sts' ! k = (sts ! k)\<lparr>profileSpecific :=
                      (profileSpecific (sts ! k))\<lparr>committedRanges := Some (butlast ranges)\<rparr>\<rparr>)"
proof -
  from mergeProfiles_thread[OF assms] obtain thread tr f where
    sel: "selectThread U ps (mergedMaps ps) k (sts ! k) = Inr (thread, tr, f, sts' ! k)"
    and m: "threads (profile out) ! k
             = setUnregisterTime U (interval (meta (ps ! k)))
                 (adjustThreadTimes (resetIdentity k thread))"
    by blast
  from selectThread_Inr[OF sel] obtain sl remapped where
    s: "selectedThread (profileSpecific (sts ! k)) = Some sl"
      "sl < length (threads (ps ! k))"
      "adjustThreadCategories (threads (ps ! k) ! sl) (mergedMaps ps ! k) = Inr remapped"
      "thread = filterToCommittedRange U
                       ((ps ! k)\<lparr>threads := (threads (ps ! k))[sl := remapped]\<rparr>)
                       remapped (fst (popCommittedRange (sts ! k)))"
      "sts' ! k = snd (popCommittedRange (sts ! k))"
    by blast
  let ?zeroAt = "start (getTimeRangeIncludingAllThreads U
                        ((ps ! k)\<lparr>threads := (threads (ps ! k))[sl := remapped]\<rparr>))"
  have r: "case committedRanges (profileSpecific (sts ! k)) of
            None \<Rightarrow> thread = remapped \<and> sts' ! k = sts ! k
          | Some ranges \<Rightarrow>
              if ranges = [] then thread = remapped \<and> sts' ! k = sts ! k
              else thread = filterThreadSamplesToRange U remapped
                              (jsadd ?zeroAt (start (last ranges)))
                              (jsadd ?zeroAt (end' (last ranges)))
                 \<and> sts' ! k = (sts ! k)\<lparr>profileSpecific :=
                      (profileSpecific (sts ! k))\<lparr>committedRanges := Some (butlast ranges)\<rparr>\<rparr>"
    unfolding s(4,5) popCommittedRange_cases filterToCommittedRange_def Let_def
    by (simp add: jsadd_commute split: option.splits)
  show ?thesis
    unfolding Let_def using s(1,2,3) sel m r[unfolded Let_def] by blast
qed

text \<open>An instance of the theorem, on example inputs.\<close>

theorem mergeProfiles_pops_committed_range_witness:
  "mergeProfiles specProfileData [profile1, profile2] [state1, state2]
     = Inr (mergedProfiles12, statesAfter12)
 \<and> (0::nat) < length [state1, state2]
 \<and> committedRanges (profileSpecific (statesAfter12 ! 0)) = Some [\<lparr>start = Num 0, end' = Num 4\<rparr>]
 \<and> SamplesTable.time (samples (threads (profile mergedProfiles12) ! 0)) = [Num 0, Num 1]"
proof -
  have k: "(0::nat) < length [state1, state2]" by simp
  from mergeProfiles_pops_committed_range[OF mergeProfiles_example k]
  obtain sel remapped thread tr f where
    a: "selectedThread (profileSpecific ([state1, state2] ! 0)) = Some sel"
    and b: "adjustThreadCategories (threads ([profile1, profile2] ! 0) ! sel)
              (mergedMaps [profile1, profile2] ! 0) = Inr remapped"
    and m: "threads (profile mergedProfiles12) ! 0
        = setUnregisterTime specProfileData (interval (meta ([profile1, profile2] ! 0)))
            (adjustThreadTimes (resetIdentity 0 thread))"
    and c: "case committedRanges (profileSpecific ([state1, state2] ! 0)) of
            None \<Rightarrow> thread = remapped \<and> statesAfter12 ! 0 = [state1, state2] ! 0
          | Some ranges \<Rightarrow>
              if ranges = [] then thread = remapped \<and> statesAfter12 ! 0 = [state1, state2] ! 0
              else thread = filterThreadSamplesToRange specProfileData remapped
                     (jsadd (start (getTimeRangeIncludingAllThreads specProfileData
                        (([profile1, profile2] ! 0)\<lparr>threads := (threads ([profile1, profile2] ! 0))[sel := remapped]\<rparr>)))
                      (start (last ranges)))
                     (jsadd (start (getTimeRangeIncludingAllThreads specProfileData
                        (([profile1, profile2] ! 0)\<lparr>threads := (threads ([profile1, profile2] ! 0))[sel := remapped]\<rparr>)))
                      (end' (last ranges)))
                 \<and> statesAfter12 ! 0 = ([state1, state2] ! 0)\<lparr>profileSpecific :=
                      (profileSpecific ([state1, state2] ! 0))\<lparr>committedRanges := Some (butlast ranges)\<rparr>\<rparr>"
    unfolding Let_def by blast
  have sel0: "sel = 0" using a by (simp add: state1_def)
  have rm: "remapped = thread1"
    using b unfolding sel0 mergedMaps_example
    by (simp add: profile1_def thread1_def adjustThreadCategories_def)
  have st: "statesAfter12 ! 0 = state1\<lparr>profileSpecific :=
              (profileSpecific state1)\<lparr>committedRanges := Some [\<lparr>start = Num 0, end' = Num 4\<rparr>]\<rparr>\<rparr>"
    and th: "thread = filterThreadSamplesToRange specProfileData thread1 (Num 101) (Num 103)"
    using c unfolding sel0 rm
    by (simp_all add: state1_def profile1_def specProfileData_def
        specGetTimeRangeIncludingAllThreads_def specGetTimeRangeForThread_def thread1_def)
  have r: "committedRanges (profileSpecific (statesAfter12 ! 0)) = Some [\<lparr>start = Num 0, end' = Num 4\<rparr>]"
    unfolding st by simp
  have s: "SamplesTable.time (samples (threads (profile mergedProfiles12) ! 0)) = [Num 0, Num 1]"
    unfolding m th
    by (simp add: setUnregisterTime_simps adjustThreadTimes_simps resetIdentity_simps
        adjustSampleTimestamps_def startTimeAdjustment_def specProfileData_def
        specFilterThreadSamplesToRange_def inRange_def thread1_def)
  show ?thesis using mergeProfiles_example k r s by (intro conjI)
qed

subsection \<open>The end of a thread\<close>

text \<open>
  C5. For every thread of a merged profile, with \<open>shifted\<close> the thread after the renaming and
  the shifting of its times: when both \<open>processShutdownTime\<close> and \<open>unregisterTime\<close> of
  \<open>shifted\<close> are \<open>null\<close>, the merged thread's \<open>unregisterTime\<close> is the \<open>end\<close> that
  \<open>getTimeRangeForThread\<close> returns for \<open>shifted\<close> and the interval of the input profile, so it
  is not \<open>null\<close>; when one of the two is set, \<open>unregisterTime\<close> is the one of \<open>shifted\<close>. No
  other field differs from \<open>shifted\<close>, and a field of \<open>shifted\<close> is \<open>null\<close> exactly when it is
  before the shift.
\<close>

theorem mergeProfiles_sets_unregisterTime:
  assumes "mergeProfiles U ps sts = Inr (out, sts')" and "k < length sts"
  shows "\<exists>thread tr f s'.
      selectThread U ps (mergedMaps ps) k (sts ! k) = Inr (thread, tr, f, s')
    \<and> (let shifted = adjustThreadTimes (resetIdentity k thread);
            merged = threads (profile out) ! k
        in (processShutdownTime shifted = None \<and> unregisterTime shifted = None \<longrightarrow>
              unregisterTime merged
                = Some (end' (getTimeRangeForThread U shifted (interval (meta (ps ! k))))))
         \<and> (processShutdownTime shifted \<noteq> None \<or> unregisterTime shifted \<noteq> None \<longrightarrow>
              unregisterTime merged = unregisterTime shifted)
         \<and> merged = shifted\<lparr>unregisterTime := unregisterTime merged\<rparr>
         \<and> (processShutdownTime shifted = None \<longleftrightarrow> processShutdownTime thread = None)
         \<and> (unregisterTime shifted = None \<longleftrightarrow> unregisterTime thread = None))"
proof -
  from mergeProfiles_thread[OF assms] obtain thread tr f where
    sel: "selectThread U ps (mergedMaps ps) k (sts ! k) = Inr (thread, tr, f, sts' ! k)"
    and m: "threads (profile out) ! k
             = setUnregisterTime U (interval (meta (ps ! k)))
                 (adjustThreadTimes (resetIdentity k thread))"
    by blast
  let ?s = "adjustThreadTimes (resetIdentity k thread)"
  let ?m = "threads (profile out) ! k"
  have a: "processShutdownTime ?s = None \<and> unregisterTime ?s = None \<longrightarrow>
              unregisterTime ?m = Some (end' (getTimeRangeForThread U ?s (interval (meta (ps ! k)))))"
    by (simp add: m setUnregisterTime_def)
  have b: "processShutdownTime ?s \<noteq> None \<or> unregisterTime ?s \<noteq> None \<longrightarrow>
              unregisterTime ?m = unregisterTime ?s"
    by (auto simp: m setUnregisterTime_def)
  have c: "?m = ?s\<lparr>unregisterTime := unregisterTime ?m\<rparr>"
    by (simp add: m setUnregisterTime_def)
  have d: "(processShutdownTime ?s = None \<longleftrightarrow> processShutdownTime thread = None)"
    by (simp add: adjustThreadTimes_simps resetIdentity_simps)
  have e: "(unregisterTime ?s = None \<longleftrightarrow> unregisterTime thread = None)"
    by (simp add: adjustThreadTimes_simps resetIdentity_simps)
  show ?thesis
    unfolding Let_def
    by (rule exI[of _ thread], rule exI[of _ tr], rule exI[of _ f], rule exI[of _ "sts' ! k"])
       (intro conjI sel a b c d e)
qed

text \<open>An instance of the theorem, on example inputs.\<close>

theorem mergeProfiles_sets_unregisterTime_witness:
  "mergeProfiles specProfileData [profile1, profile2] [state1, state2]
     = Inr (mergedProfiles12, statesAfter12)
 \<and> (0::nat) < length [state1, state2] \<and> Suc 0 < length [state1, state2]
 \<and> unregisterTime (threads (profile mergedProfiles12) ! 0) = Some (Num 2)
 \<and> unregisterTime (threads (profile mergedProfiles12) ! Suc 0) = Some (Num 4)"
proof -
  have k0: "(0::nat) < length [state1, state2]" and k1: "Suc 0 < length [state1, state2]"
    by simp_all
  from mergeProfiles_sets_unregisterTime[OF mergeProfiles_example k0]
  obtain thread tr f s' where
    sel: "selectThread specProfileData [profile1, profile2] (mergedMaps [profile1, profile2]) 0
            ([state1, state2] ! 0) = Inr (thread, tr, f, s')"
    and a: "processShutdownTime (adjustThreadTimes (resetIdentity 0 thread)) = None
          \<and> unregisterTime (adjustThreadTimes (resetIdentity 0 thread)) = None \<longrightarrow>
          unregisterTime (threads (profile mergedProfiles12) ! 0)
            = Some (end' (getTimeRangeForThread specProfileData
                (adjustThreadTimes (resetIdentity 0 thread))
                (interval (meta ([profile1, profile2] ! 0)))))"
    unfolding Let_def by blast
  have t: "thread = thread1\<lparr>samples := \<lparr>SamplesTable.time = [Num 101, Num 102]\<rparr>,
                    markers := \<lparr>MarkersTable.time = [Num 102]\<rparr>\<rparr>"
    using sel by (simp add: selectThread_example1)
  have u0: "unregisterTime (threads (profile mergedProfiles12) ! 0) = Some (Num 2)"
    using a unfolding t
    by (simp add: adjustThreadTimes_simps resetIdentity_simps thread1_def profile1_def
        specProfileData_def specGetTimeRangeForThread_def adjustSampleTimestamps_def
        startTimeAdjustment_def)
  from mergeProfiles_sets_unregisterTime[OF mergeProfiles_example k1]
  obtain thread' tr' f' s'' where
    sel': "selectThread specProfileData [profile1, profile2] (mergedMaps [profile1, profile2]) (Suc 0)
            ([state1, state2] ! Suc 0) = Inr (thread', tr', f', s'')"
    and b: "processShutdownTime (adjustThreadTimes (resetIdentity (Suc 0) thread')) \<noteq> None
          \<or> unregisterTime (adjustThreadTimes (resetIdentity (Suc 0) thread')) \<noteq> None \<longrightarrow>
          unregisterTime (threads (profile mergedProfiles12) ! Suc 0)
            = unregisterTime (adjustThreadTimes (resetIdentity (Suc 0) thread'))"
    unfolding Let_def by blast
  have t': "thread' = thread2\<lparr>stackTable := \<lparr>StackTable.category = [2, 1]\<rparr>,
                    frameTable := \<lparr>FrameTable.category = [None, Some 1]\<rparr>\<rparr>"
    using sel' by (simp add: selectThread_example2)
  have u1: "unregisterTime (threads (profile mergedProfiles12) ! Suc 0) = Some (Num 4)"
    using b unfolding t'
    by (simp add: adjustThreadTimes_simps resetIdentity_simps thread2_def
        startTimeAdjustment_def)
  show ?thesis using mergeProfiles_example k0 k1 u0 u1 by (intro conjI)
qed

subsection \<open>The identity of a merged thread\<close>







lemma adjustThreadCategories_Inr:
  assumes "adjustThreadCategories t m = Inr t'"
  shows "pid t' = pid t" "processName t' = processName t" "Thread.name t' = Thread.name t"
    "samples t' = samples t" "markers t' = markers t"
    "adjustCategories (StackTable.category (stackTable t)) m
       = Inr (StackTable.category (stackTable t'))"
    "adjustNullableCategories (FrameTable.category (frameTable t)) m
       = Inr (FrameTable.category (frameTable t'))"
  using assms unfolding adjustThreadCategories_def
  by (auto split: sum.splits)




subsection \<open>States without a selected thread\<close>

lemma selectThread_null:
  "selectedThread (profileSpecific s) = None \<Longrightarrow> selectThread U ps maps i s = Inl (NoThreadSelected i)"
  by (simp add: selectThread_def)

lemma selectThread_NoThreadSelected:
  "selectThread U ps maps i s = Inl (NoThreadSelected j) \<Longrightarrow>
     j = i \<and> selectedThread (profileSpecific s) = None"
  unfolding selectThread_def adjustThreadCategories_def
  by (auto split: option.splits if_splits sum.splits prod.splits
           dest!: adjustCategories_InlD adjustNullableCategories_InlD)

lemma mergeThread_Inl: "mergeThread U ps maps i s = Inl e \<longleftrightarrow> selectThread U ps maps i s = Inl e"
  unfolding mergeThread_def by (auto split: sum.splits)

lemma NoThreadSelected_raised:
  assumes "mergeProfiles U ps sts = Inl (NoThreadSelected i)"
  shows "i < length sts \<and> selectedThread (profileSpecific (sts ! i)) = None"
proof -
  from mergeProfiles_Inl[OF assms] obtain k where k: "k < length sts"
      "mergeThread U ps (mergedMaps ps) k (sts ! k) = Inl (NoThreadSelected i)"
    by blast
  then have "selectThread U ps (mergedMaps ps) k (sts ! k) = Inl (NoThreadSelected i)"
    by (simp add: mergeThread_Inl)
  from selectThread_NoThreadSelected[OF this] k(1) show ?thesis by simp
qed

lemma mergeProfiles_turn_fails:
  assumes "i < length sts" and "mergeThread U ps (mergedMaps ps) i (sts ! i) = Inl e"
  shows "\<exists>e'. mergeProfiles U ps sts = Inl e'"
proof (cases "mergeProfiles U ps sts")
  case (Inl e')
  then show ?thesis by blast
next
  case (Inr r)
  obtain out sts' where "r = (out, sts')" by (cases r) auto
  with Inr mergeProfiles_Inr(5)[of U ps sts out sts' i] assms show ?thesis by auto
qed

text \<open>
  C7, as stated, fails when an earlier input makes the merge fail first: the second state
  has no selected thread, the thread of the first profile refers to category \<open>7\<close>, which
  its profile lacks, and the error thrown is the one of the category, not the one that
  names input \<open>1\<close>.
\<close>

theorem mergeProfiles_earlier_failure_counterexample:
  "selectedThread (profileSpecific ([state2, stateNull] ! 1)) = None
 \<and> mergeProfiles specProfileData [profile4, profile1] [state2, stateNull]
     = Inl (CategoryNotFound 7)
 \<and> mergeProfiles specProfileData [profile4, profile1] [state2, stateNull]
     \<noteq> Inl (NoThreadSelected 1)"
proof -
  have "mergeProfiles specProfileData [profile4, profile1] [state2, stateNull]
          = Inl (CategoryNotFound 7)"
    by (simp add: mergeProfiles_def mergeCategories_def mergeThread_def selectThread_def Let_def
        profile4_def profile1_def state2_def thread2_def catA_def catB_def
        adjustThreadCategories_def)
  then show ?thesis by (simp add: stateNull_def)
qed

text \<open>
  C7, as amended. When the state at index \<open>i\<close> has no selected thread, \<open>mergeProfiles\<close> throws
  and returns nothing; the loop turn of \<open>i\<close> throws the error that names \<open>i\<close>, and that is the
  error of \<open>mergeProfiles\<close> when every earlier turn of the loop has returned. The error that
  names \<open>i\<close> is thrown only when the state at \<open>i\<close> has no selected thread; so it is never
  thrown when there are as many profiles as states and every state has a selected thread.
\<close>

theorem mergeProfiles_requires_selected_thread:
  "(i < length sts \<and> selectedThread (profileSpecific (sts ! i)) = None \<longrightarrow>
      (\<exists>e. mergeProfiles U ps sts = Inl e)
    \<and> mergeThread U ps (mergedMaps ps) i (sts ! i) = Inl (NoThreadSelected i)
    \<and> ((\<forall>j<i. \<exists>r. mergeThread U ps (mergedMaps ps) j (sts ! j) = Inr r) \<longrightarrow>
          mergeProfiles U ps sts = Inl (NoThreadSelected i)))
 \<and> (mergeProfiles U ps sts = Inl (NoThreadSelected i) \<longrightarrow>
      i < length sts \<and> selectedThread (profileSpecific (sts ! i)) = None)
 \<and> (length ps = length sts \<and> (\<forall>s\<in>set sts. selectedThread (profileSpecific s) \<noteq> None) \<longrightarrow>
      mergeProfiles U ps sts \<noteq> Inl (NoThreadSelected i))"
proof -
  have first: "(\<exists>e. mergeProfiles U ps sts = Inl e)
    \<and> mergeThread U ps (mergedMaps ps) i (sts ! i) = Inl (NoThreadSelected i)
    \<and> ((\<forall>j<i. \<exists>r. mergeThread U ps (mergedMaps ps) j (sts ! j) = Inr r) \<longrightarrow>
          mergeProfiles U ps sts = Inl (NoThreadSelected i))"
    if i: "i < length sts" and n: "selectedThread (profileSpecific (sts ! i)) = None"
  proof (intro conjI impI)
    show t: "mergeThread U ps (mergedMaps ps) i (sts ! i) = Inl (NoThreadSelected i)"
      using n by (simp add: mergeThread_Inl selectThread_null)
    show "\<exists>e. mergeProfiles U ps sts = Inl e"
      using mergeProfiles_turn_fails[OF i t] .
    assume "\<forall>j<i. \<exists>r. mergeThread U ps (mergedMaps ps) j (sts ! j) = Inr r"
    then show "mergeProfiles U ps sts = Inl (NoThreadSelected i)"
      using mergeProfiles_fails[OF i t] by blast
  qed
  have never: "mergeProfiles U ps sts \<noteq> Inl (NoThreadSelected i)"
    if "\<forall>s\<in>set sts. selectedThread (profileSpecific s) \<noteq> None"
    using NoThreadSelected_raised[of U ps sts i] that by (metis nth_mem)
  show ?thesis using NoThreadSelected_raised[of U ps sts i] first never by blast
qed

text \<open>An instance of the theorem, on example inputs.\<close>

theorem mergeProfiles_requires_selected_thread_witness:
  "(1::nat) < length [state1, stateNull]
 \<and> selectedThread (profileSpecific ([state1, stateNull] ! 1)) = None
 \<and> mergeProfiles specProfileData [profile1, profile2] [state1, stateNull]
     = Inl (NoThreadSelected 1)
 \<and> length [profile1, profile2] = length [state1, state2]
 \<and> mergeProfiles specProfileData [profile1, profile2] [state1, state2]
     \<noteq> Inl (NoThreadSelected 0)"
proof -
  note T = mergeProfiles_requires_selected_thread[of 1 "[state1, stateNull]" specProfileData
      "[profile1, profile2]"]
  have h: "(1::nat) < length [state1, stateNull]
         \<and> selectedThread (profileSpecific ([state1, stateNull] ! 1)) = None"
    by (simp add: stateNull_def)
  have e: "\<forall>j<1. \<exists>r. mergeThread specProfileData [profile1, profile2]
              (mergedMaps [profile1, profile2]) j ([state1, stateNull] ! j) = Inr r"
    using mergeThread_example1 by simp
  have a: "mergeProfiles specProfileData [profile1, profile2] [state1, stateNull]
     = Inl (NoThreadSelected 1)"
    using T[THEN conjunct1, THEN mp, OF h, THEN conjunct2, THEN conjunct2, THEN mp, OF e] .
  note T' = mergeProfiles_requires_selected_thread[of 0 "[state1, state2]" specProfileData
      "[profile1, profile2]"]
  have h': "length [profile1, profile2] = length [state1, state2]
         \<and> (\<forall>s\<in>set [state1, state2]. selectedThread (profileSpecific s) \<noteq> None)"
    by (simp add: state1_def state2_def)
  have b: "mergeProfiles specProfileData [profile1, profile2] [state1, state2]
     \<noteq> Inl (NoThreadSelected 0)"
    using T'[THEN conjunct2, THEN conjunct2, THEN mp, OF h'] .
  show ?thesis using h a b by simp
qed

subsection \<open>A selection out of range\<close>

text \<open>
  C10. When the state at index \<open>i\<close> selects a thread index that is not less than the number of
  threads of profile \<open>i\<close>, the loop turn of \<open>i\<close> does not throw the error that names an input
  without selected thread: it goes on with \<open>undefined\<close> for the thread and throws the
  \<open>TypeError\<close> of the language where it reads the thread's stack table for the remapping.
  \<open>mergeProfiles\<close> returns nothing, never throws the error that names \<open>i\<close>, and throws that
  \<open>TypeError\<close> when every earlier turn has returned. The error that names an input is thrown
  only for a state without selected thread.
\<close>

theorem mergeProfiles_selection_out_of_range:
  assumes "i < length sts" and "i < length ps"
    and "selectedThread (profileSpecific (sts ! i)) = Some sel"
    and "\<not> sel < length (threads (ps ! i))"
  shows "mergeThread U ps (mergedMaps ps) i (sts ! i) = Inl TypeError
    \<and> (\<exists>e. mergeProfiles U ps sts = Inl e)
    \<and> mergeProfiles U ps sts \<noteq> Inl (NoThreadSelected i)
    \<and> ((\<forall>j<i. \<exists>r. mergeThread U ps (mergedMaps ps) j (sts ! j) = Inr r) \<longrightarrow>
          mergeProfiles U ps sts = Inl TypeError)
    \<and> (\<forall>j. mergeProfiles U ps sts = Inl (NoThreadSelected j) \<longrightarrow>
          j < length sts \<and> selectedThread (profileSpecific (sts ! j)) = None)"
proof (intro conjI)
  show t: "mergeThread U ps (mergedMaps ps) i (sts ! i) = Inl TypeError"
    using assms by (simp add: mergeThread_Inl selectThread_def)
  show "\<exists>e. mergeProfiles U ps sts = Inl e"
    using mergeProfiles_turn_fails[OF assms(1) t] .
  show "mergeProfiles U ps sts \<noteq> Inl (NoThreadSelected i)"
    using NoThreadSelected_raised[of U ps sts i] assms(3) by auto
  show "(\<forall>j<i. \<exists>r. mergeThread U ps (mergedMaps ps) j (sts ! j) = Inr r) \<longrightarrow>
          mergeProfiles U ps sts = Inl TypeError"
    using mergeProfiles_fails[OF assms(1) t] by blast
  show "\<forall>j. mergeProfiles U ps sts = Inl (NoThreadSelected j) \<longrightarrow>
          j < length sts \<and> selectedThread (profileSpecific (sts ! j)) = None"
    using NoThreadSelected_raised[of U ps sts] by blast
qed

text \<open>An instance of the theorem, on example inputs.\<close>

theorem mergeProfiles_selection_out_of_range_witness:
  "(0::nat) < length [stateOutOfRange] \<and> (0::nat) < length [profile1]
 \<and> selectedThread (profileSpecific ([stateOutOfRange] ! 0)) = Some 3
 \<and> \<not> 3 < length (threads ([profile1] ! 0))
 \<and> mergeProfiles specProfileData [profile1] [stateOutOfRange] = Inl TypeError"
proof -
  have h: "(0::nat) < length [stateOutOfRange]" "(0::nat) < length [profile1]"
    "selectedThread (profileSpecific ([stateOutOfRange] ! 0)) = Some 3"
    "\<not> 3 < length (threads ([profile1] ! 0))"
    by (simp_all add: stateOutOfRange_def profile1_def)
  note T = mergeProfiles_selection_out_of_range[OF h, of specProfileData]
  have "mergeProfiles specProfileData [profile1] [stateOutOfRange] = Inl TypeError"
    using T[THEN conjunct2, THEN conjunct2, THEN conjunct2, THEN conjunct1] by simp
  then show ?thesis using h by (intro conjI)
qed

subsection \<open>The category references of the merged profile\<close>

lemma adjustCategories_range:
  assumes "adjustCategories cs m = Inr rs" and "r \<in> set rs"
  shows "\<exists>c. m c = Some r"
proof -
  have "map m cs = map Some rs" using assms(1) by (rule adjustCategories_InrD)
  then have "m ` set cs = Some ` set rs" by (metis set_map)
  then show ?thesis using assms(2) by (metis image_iff)
qed

lemma adjustNullableCategories_range:
  assumes "adjustNullableCategories cs m = Inr rs" and "Some r \<in> set rs"
  shows "\<exists>c. m c = Some r"
proof -
  let ?f = "\<lambda>x. case x of None \<Rightarrow> Some None | Some c \<Rightarrow> map_option Some (m c)"
  have "map ?f cs = map Some rs" using assms(1) by (rule adjustNullableCategories_InrD)
  then have "?f ` set cs = Some ` set rs" by (metis set_map)
  then obtain x where x: "x \<in> set cs" "?f x = Some (Some r)" using assms(2) by (metis image_iff)
  show ?thesis
  proof (cases x)
    case None
    then show ?thesis using x(2) by simp
  next
    case (Some c)
    then show ?thesis using x(2) by auto
  qed
qed

text \<open>
  C8. Whenever \<open>mergeProfiles\<close> returns, and \<open>filterThreadSamplesToRange\<close> keeps the stack
  table and the frame table of a thread: in every thread of the merged profile, every
  entry of \<open>stackTable.category\<close> and every entry of \<open>frameTable.category\<close> that is not
  \<open>null\<close> is less than the length of the merged profile's \<open>meta.categories\<close>. This holds
  whether or not the input profiles satisfied the invariant, hence also when they did.
\<close>

theorem mergeProfiles_category_references_valid:
  assumes "mergeProfiles U ps sts = Inr (out, sts')"
    and "\<forall>t a b. stackTable (filterThreadSamplesToRange U t a b) = stackTable t
               \<and> frameTable (filterThreadSamplesToRange U t a b) = frameTable t"
  shows "\<forall>t\<in>set (threads (profile out)).
           (\<forall>c\<in>set (StackTable.category (stackTable t)).
              c < length (ProfileMeta.categories (meta (profile out))))
         \<and> (\<forall>c. Some c \<in> set (FrameTable.category (frameTable t)) \<longrightarrow>
              c < length (ProfileMeta.categories (meta (profile out))))"
proof
  fix t assume "t \<in> set (threads (profile out))"
  then obtain k where k: "k < length (threads (profile out))" "t = threads (profile out) ! k"
    by (metis in_set_conv_nth)
  have ks: "k < length sts" using k(1) mergeProfiles_Inr(3)[OF assms(1)] by simp
  from mergeProfiles_thread[OF assms(1) ks] obtain thread tr f where
    sel: "selectThread U ps (mergedMaps ps) k (sts ! k) = Inr (thread, tr, f, sts' ! k)"
    and m: "threads (profile out) ! k
             = setUnregisterTime U (interval (meta (ps ! k)))
                 (adjustThreadTimes (resetIdentity k thread))"
    by blast
  from selectThread_Inr[OF sel] obtain sl remapped where
    s: "k < length ps"
      "adjustThreadCategories (threads (ps ! k) ! sl) (mergedMaps ps ! k) = Inr remapped"
      "thread = filterToCommittedRange U
                       ((ps ! k)\<lparr>threads := (threads (ps ! k))[sl := remapped]\<rparr>)
                       remapped (fst (popCommittedRange (sts ! k)))"
    by blast
  have tables: "stackTable t = stackTable remapped" "frameTable t = frameTable remapped"
    using assms(2) unfolding k(2) m s(3) filterToCommittedRange_def Let_def
    by (auto simp: setUnregisterTime_simps adjustThreadTimes_simps resetIdentity_simps
             split: option.splits)
  let ?cls = "map (\<lambda>p. ProfileMeta.categories (meta p)) ps"
  have len: "ProfileMeta.categories (meta (profile out))
               = MergedCategories.categories (mergeCategories ?cls)"
    using mergeProfiles_Inr(2)[OF assms(1)] .
  have kc: "k < length ?cls" using s(1) by simp
  have bound: "j < length (ProfileMeta.categories (meta (profile out)))"
    if "(mergedMaps ps ! k) c = Some j" for c j
    using translationMaps_range[OF kc that[unfolded mergedMaps_def]] unfolding len .
  show "(\<forall>c\<in>set (StackTable.category (stackTable t)).
              c < length (ProfileMeta.categories (meta (profile out))))
         \<and> (\<forall>c. Some c \<in> set (FrameTable.category (frameTable t)) \<longrightarrow>
              c < length (ProfileMeta.categories (meta (profile out))))"
  proof (intro conjI ballI allI impI)
    fix c assume "c \<in> set (StackTable.category (stackTable t))"
    then have "c \<in> set (StackTable.category (stackTable remapped))" by (simp add: tables)
    from adjustCategories_range[OF adjustThreadCategories_Inr(6)[OF s(2)] this]
    show "c < length (ProfileMeta.categories (meta (profile out)))" using bound by blast
  next
    fix c assume "Some c \<in> set (FrameTable.category (frameTable t))"
    then have "Some c \<in> set (FrameTable.category (frameTable remapped))" by (simp add: tables)
    from adjustNullableCategories_range[OF adjustThreadCategories_Inr(7)[OF s(2)] this]
    show "c < length (ProfileMeta.categories (meta (profile out)))" using bound by blast
  qed
qed

text \<open>An instance of the theorem, on example inputs.\<close>

theorem mergeProfiles_category_references_valid_witness:
  "mergeProfiles specProfileData [profile1, profile2] [state1, state2]
     = Inr (mergedProfiles12, statesAfter12)
 \<and> threads (profile mergedProfiles12) ! 1 \<in> set (threads (profile mergedProfiles12))
 \<and> 2 \<in> set (StackTable.category (stackTable (threads (profile mergedProfiles12) ! 1)))
 \<and> 2 < length (ProfileMeta.categories (meta (profile mergedProfiles12)))"
proof -
  have frame: "\<forall>t a b. stackTable (filterThreadSamplesToRange specProfileData t a b) = stackTable t
               \<and> frameTable (filterThreadSamplesToRange specProfileData t a b) = frameTable t"
    by (simp add: specProfileData_def specFilterThreadSamplesToRange_def)
  note T = mergeProfiles_category_references_valid[OF mergeProfiles_example frame]
  have m: "threads (profile mergedProfiles12) ! 1 \<in> set (threads (profile mergedProfiles12))"
    by (simp add: mergedProfiles12_def)
  have c: "2 \<in> set (StackTable.category (stackTable (threads (profile mergedProfiles12) ! 1)))"
    by (simp add: mergedProfiles12_def mergedThread2_def)
  have "2 < length (ProfileMeta.categories (meta (profile mergedProfiles12)))"
    using T[rule_format, OF m, THEN conjunct1, rule_format, OF c] .
  then show ?thesis using mergeProfiles_example m c by (intro conjI)
qed

subsection \<open>The interval of the merged profile\<close>

lemma foldl_jsmin_Num: "foldl jsmin (Num a) (map Num rs) = Num (fold min rs a)"
  by (induction rs arbitrary: a) (simp_all add: min.commute)

lemma Math_min_Num: "Math_min (map Num (r # rs)) = Num (Min (set (r # rs)))"
proof -
  have "Math_min (map Num (r # rs)) = Num (fold min rs r)"
    by (simp add: Math_min_def foldl_jsmin_Num)
  then show ?thesis by (simp only: Min.set_eq_fold)
qed

text \<open>
  C9. The \<open>meta.interval\<close> of a merged profile is \<open>Math.min\<close> of the intervals of all the input
  profiles: for a non-empty sequence of profiles with finite intervals, their minimum.
  Intervals \<open>1\<close> and \<open>0.5\<close> give \<open>0.5\<close>.
\<close>

theorem mergeProfiles_interval_is_minimum:
  assumes "mergeProfiles U ps sts = Inr (out, sts')"
  shows "interval (meta (profile out)) = Math_min (map (\<lambda>p. interval (meta p)) ps)
       \<and> (\<forall>rs. rs \<noteq> [] \<and> map (\<lambda>p. interval (meta p)) ps = map Num rs \<longrightarrow>
            interval (meta (profile out)) = Num (Min (set rs)))
       \<and> Math_min [Num 1, Num 0.5] = Num 0.5"
proof (intro conjI allI impI)
  show i: "interval (meta (profile out)) = Math_min (map (\<lambda>p. interval (meta p)) ps)"
    using mergeProfiles_Inr(1)[OF assms] .
  show "Math_min [Num 1, Num 0.5] = Num 0.5" by (simp add: Math_min_def)
  fix rs :: "real list"
  assume "rs \<noteq> [] \<and> map (\<lambda>p. interval (meta p)) ps = map Num rs"
  then show "interval (meta (profile out)) = Num (Min (set rs))"
    unfolding i by (cases rs) (simp_all add: Math_min_Num del: list.map)
qed

text \<open>An instance of the theorem, on example inputs.\<close>

theorem mergeProfiles_interval_is_minimum_witness:
  "mergeProfiles specProfileData [profile1, profile2] [state1, state2]
     = Inr (mergedProfiles12, statesAfter12)
 \<and> map (\<lambda>p. interval (meta p)) [profile1, profile2] = map Num [1, 0.5]
 \<and> interval (meta (profile mergedProfiles12)) = Num 0.5"
proof -
  note T = mergeProfiles_interval_is_minimum[OF mergeProfiles_example]
  have h: "[1, 0.5] \<noteq> [] \<and> map (\<lambda>p. interval (meta p)) [profile1, profile2] = map Num [1, 0.5]"
    by (simp add: profile1_def profile2_def)
  have "interval (meta (profile mergedProfiles12)) = Num (Min (set [1, 0.5]))"
    using T[THEN conjunct2, THEN conjunct1, rule_format, OF h] .
  then have "interval (meta (profile mergedProfiles12)) = Num 0.5" by simp
  then show ?thesis using mergeProfiles_example h by (intro conjI) simp_all
qed

end
